theory Spec2Isabelle
  imports Main "HOL-Library.Sublist"
begin

section \<open>Strings\<close>

text \<open>
  A source string is a sequence of UTF-16 code units. The model covers the strings whose
  code units are below 256: a \<^typ>\<open>char\<close> is the code unit, read as Latin-1. The
  white space of \<^verbatim>\<open>trim\<close>, \<^verbatim>\<open>trimEnd\<close> and of the class \<^verbatim>\<open>\s\<close> is,
  in that range, TAB, LF, VT, FF, CR, SPACE and NBSP.
\<close>

definition isSpace :: "char \<Rightarrow> bool" where
  "isSpace c = (c = CHR 0x09 \<or> c = CHR ''\<newline>'' \<or> c = CHR 0x0B \<or> c = CHR 0x0C
     \<or> c = CHR 0x0D \<or> c = CHR '' '' \<or> c = CHR 0xA0)"

definition isDigit :: "char \<Rightarrow> bool" where
  "isDigit c = (of_char (CHR ''0'') \<le> (of_char c :: nat) \<and> (of_char c :: nat) \<le> of_char (CHR ''9''))"

text \<open>The class of \<^verbatim>\<open>.\<close>: every code unit that is no line terminator.\<close>

definition isDot :: "char \<Rightarrow> bool" where
  "isDot c = (c \<noteq> CHR ''\<newline>'' \<and> c \<noteq> CHR 0x0D)"

definition trimStart :: "string \<Rightarrow> string" where
  "trimStart s = dropWhile isSpace s"

definition trimEnd :: "string \<Rightarrow> string" where
  "trimEnd s = rev (dropWhile isSpace (rev s))"

definition trim :: "string \<Rightarrow> string" where
  "trim s = trimEnd (trimStart s)"

definition startsWith :: "string \<Rightarrow> string \<Rightarrow> bool" where
  "startsWith s p = (take (length p) s = p)"

text \<open>\<^verbatim>\<open>s.substr(n)\<close> with one argument: the string from index \<open>n\<close> on.\<close>

definition substr :: "string \<Rightarrow> nat \<Rightarrow> string" where
  "substr s n = drop n s"

fun includesStr :: "string \<Rightarrow> string \<Rightarrow> bool" where
  "includesStr [] p = (p = [])"
| "includesStr (c # cs) p = (startsWith (c # cs) p \<or> includesStr cs p)"

text \<open>
  \<^verbatim>\<open>toLowerCase\<close> on Latin-1 code units: the letters A to Z and the accented capitals
  0xC0 to 0xDE (0xD7, the multiplication sign, apart) move up by 32.
\<close>

definition lowerChar :: "char \<Rightarrow> char" where
  "lowerChar c =
     (let n = (of_char c :: nat) in
      if (of_char (CHR ''A'') \<le> n \<and> n \<le> of_char (CHR ''Z'')) \<or> (0xC0 \<le> n \<and> n \<le> 0xDE \<and> n \<noteq> 0xD7)
      then char_of (n + 32) else c)"

definition toLowerCase :: "string \<Rightarrow> string" where
  "toLowerCase s = map lowerChar s"

text \<open>\<^verbatim>\<open>xs.join(sep)\<close>.\<close>

fun join :: "string list \<Rightarrow> string \<Rightarrow> string" where
  "join [] sep = []"
| "join [x] sep = x"
| "join (x # y # ys) sep = x @ sep @ join (y # ys) sep"

text \<open>
  \<^verbatim>\<open>s.split("\n")\<close>: one piece more than there are line feeds, so the empty string
  splits into one empty piece.
\<close>

fun split :: "string \<Rightarrow> string list" where
  "split [] = [[]]"
| "split (c # cs) =
     (if c = CHR ''\<newline>'' then [] # split cs
      else (case split cs of [] \<Rightarrow> [[c]] | l # ls \<Rightarrow> (c # l) # ls))"

section \<open>Regular expressions, as the backtracking matcher runs them\<close>

text \<open>
  The patterns of the source are sequences of literals, greedy quantified character
  classes, capture groups (none nested) and the end anchor. A matcher state is the input
  still to read and the captures made so far. Running a pattern returns every way to
  match it, in the order in which the backtracking matcher tries them: a greedy
  quantifier first takes one more character and only then stops. The first state of the
  list is the match the engine reports.
\<close>

datatype rx =
    Lit string
  | Rep "char \<Rightarrow> bool" nat "nat option"
  | Cap nat "rx list"
  | Eoi

type_synonym mstate = "string \<times> (nat \<times> string) list"

text \<open>
  \<open>repCands p lo hi s\<close>: the inputs left after \<^verbatim>\<open>[p]{lo,hi}\<close> (\<open>hi = None\<close>: unbounded),
  longest repetition first.
\<close>

fun repCands :: "(char \<Rightarrow> bool) \<Rightarrow> nat \<Rightarrow> nat option \<Rightarrow> string \<Rightarrow> string list" where
  "repCands p lo hi [] = (if lo = 0 then [[]] else [])"
| "repCands p lo hi (c # cs) =
     (if p c \<and> hi \<noteq> Some 0 then repCands p (lo - 1) (map_option (\<lambda>h. h - 1) hi) cs else [])
     @ (if lo = 0 then [c # cs] else [])"

fun run :: "rx \<Rightarrow> mstate \<Rightarrow> mstate list"
  and runSeq :: "rx list \<Rightarrow> mstate \<Rightarrow> mstate list" where
  "run (Lit l) (s, caps) = (if startsWith s l then [(drop (length l) s, caps)] else [])"
| "run (Rep p lo hi) (s, caps) = map (\<lambda>s'. (s', caps)) (repCands p lo hi s)"
| "run (Cap n rs) (s, caps) =
     map (\<lambda>(s', caps'). (s', (n, take (length s - length s') s) # caps')) (runSeq rs (s, caps))"
| "run Eoi (s, caps) = (if s = [] then [(s, caps)] else [])"
| "runSeq [] st = [st]"
| "runSeq (r # rs) st = concat (map (runSeq rs) (run r st))"

text \<open>The pattern tried at the start of \<open>s\<close> only (a pattern that begins with \<^verbatim>\<open>^\<close>).\<close>

definition execAt :: "rx list \<Rightarrow> string \<Rightarrow> mstate option" where
  "execAt rs s = (case runSeq rs (s, []) of [] \<Rightarrow> None | st # _ \<Rightarrow> Some st)"

text \<open>
  A pattern with no \<^verbatim>\<open>^\<close>: the engine tries every start index from 0 to the length of
  the input and reports the match at the first index that has one.
\<close>

fun search :: "rx list \<Rightarrow> string \<Rightarrow> mstate option" where
  "search rs [] = execAt rs []"
| "search rs (c # cs) =
     (case execAt rs (c # cs) of Some st \<Rightarrow> Some st | None \<Rightarrow> search rs cs)"

text \<open>\<^verbatim>\<open>matches[n]\<close>: the text of group \<open>n\<close>, or undefined.\<close>

definition group :: "mstate \<Rightarrow> nat \<Rightarrow> string option" where
  "group m n = map_of (snd m) n"

text \<open>\<^verbatim>\<open>/\[?([^\]]+)\]?\s*-\s*([\d]{4}-[\d]{1,2}-[\d]{1,2})$/\<close>\<close>

definition datedRx :: "rx list" where
  "datedRx =
     [Rep (\<lambda>c. c = CHR ''['') 0 (Some 1),
      Cap 1 [Rep (\<lambda>c. c \<noteq> CHR '']'') 1 None],
      Rep (\<lambda>c. c = CHR '']'') 0 (Some 1),
      Rep isSpace 0 None, Lit ''-'', Rep isSpace 0 None,
      Cap 2 [Rep isDigit 4 (Some 4), Lit ''-'', Rep isDigit 1 (Some 2), Lit ''-'',
             Rep isDigit 1 (Some 2)],
      Eoi]"

text \<open>\<^verbatim>\<open>/\[?([^\]]+)\]?\s*-\s*unreleased$/\<close>\<close>

definition unreleasedRx :: "rx list" where
  "unreleasedRx =
     [Rep (\<lambda>c. c = CHR ''['') 0 (Some 1),
      Cap 1 [Rep (\<lambda>c. c \<noteq> CHR '']'') 1 None],
      Rep (\<lambda>c. c = CHR '']'') 0 (Some 1),
      Rep isSpace 0 None, Lit ''-'', Rep isSpace 0 None,
      Lit ''unreleased'', Eoi]"

text \<open>\<^verbatim>\<open>/^\[.*\]\:\s*(http.*)\/compare\/.*$/\<close>, tried at the start.\<close>

definition compareRx :: "rx list" where
  "compareRx =
     [Lit ''['', Rep isDot 0 None, Lit '']:'', Rep isSpace 0 None,
      Cap 1 [Lit ''http'', Rep isDot 0 None],
      Lit ''/compare/'', Rep isDot 0 None, Eoi]"

text \<open>\<^verbatim>\<open>/^\[.*\]\:\s*http.*$/\<close>, tried at the start.\<close>

definition linkRx :: "rx list" where
  "linkRx =
     [Lit ''['', Rep isDot 0 None, Lit '']:'', Rep isSpace 0 None,
      Lit ''http'', Rep isDot 0 None, Eoi]"

text \<open>\<^verbatim>\<open>/^<!--(.*)-->$/\<close>, tried at the start.\<close>

definition flagRx :: "rx list" where
  "flagRx = [Lit ''<!--'', Cap 1 [Rep isDot 0 None], Lit ''-->'', Eoi]"

text \<open>\<^verbatim>\<open>content.replace(/^\s\s/, "")\<close>: what follows the match, or the string itself.\<close>

definition stripTwoSpaces :: "string \<Rightarrow> string" where
  "stripTwoSpaces content =
     (case runSeq [Rep isSpace 1 (Some 1), Rep isSpace 1 (Some 1)] (content, []) of
        [] \<Rightarrow> content
      | (rest, _) # _ \<Rightarrow> rest)"

section \<open>Tokens\<close>

datatype TokenType = H1 | H2 | H3 | LI | P | LINK | FLAG | HR

text \<open>\<^verbatim>\<open>type Token = [number, TokenType, string[]]\<close>\<close>

type_synonym Token = "nat \<times> TokenType \<times> string list"

section \<open>The tokenizer\<close>

text \<open>
  The callback of \<^verbatim>\<open>map\<close>. Each branch of the source returns a token whose content is
  an array of one string, which the callback of \<^verbatim>\<open>forEach\<close> takes out again
  (\<^verbatim>\<open>[lineNumber, type, [content]] = line\<close>); the model keeps that one string.
  Group 1 of a match of the flag pattern is always defined (lemma \<open>flagRx_groups\<close>).
\<close>

definition classify :: "string \<Rightarrow> nat \<Rightarrow> nat \<times> TokenType \<times> string" where
  "classify line index =
     (let lineNumber = index + 1 in
      if startsWith line ''---'' then (lineNumber, HR, ''-'')
      else if startsWith line ''# '' then (lineNumber, H1, trim (substr line 1))
      else if startsWith line ''## '' then (lineNumber, H2, trim (substr line 2))
      else if startsWith line ''### '' then (lineNumber, H3, trim (substr line 3))
      else if startsWith line ''-'' then (lineNumber, LI, trim (substr line 1))
      else if startsWith line ''*'' then (lineNumber, LI, trim (substr line 1))
      else if execAt linkRx line \<noteq> None then (lineNumber, LINK, trim line)
      else (case execAt flagRx line of
              Some result \<Rightarrow> (lineNumber, FLAG, trim (the (group result 1)))
            | None \<Rightarrow> (lineNumber, P, trimEnd line)))"

text \<open>
  The callback of \<^verbatim>\<open>forEach\<close>. \<open>tokens\<close> is the array being built, newest token first
  (\<^verbatim>\<open>unshift\<close>); \<^verbatim>\<open>tokens[0][2].push(x)\<close> appends to the content of the newest token.
  At an index above 0 the array holds a token, since index 0 always adds one; reading
  \<^verbatim>\<open>tokens[0][1]\<close> of an empty array would fault, which the model writes as \<open>None\<close>.
\<close>

fun mergeLine :: "Token list \<Rightarrow> (nat \<times> TokenType \<times> string) \<times> nat \<Rightarrow> Token list option" where
  "mergeLine tokens ((lineNumber, type, content), index) =
     (if index > 0 then
        (case tokens of
           [] \<Rightarrow> None
         | (prevLine, prevType, prevContent) # rest \<Rightarrow>
             if type = P \<and> prevType = P
               then Some ((prevLine, prevType, prevContent @ [content]) # rest)
             else if type = P \<and> prevType = LI
               then Some ((prevLine, prevType, prevContent @ [stripTwoSpaces content]) # rest)
             else Some ((lineNumber, type, [content]) # tokens))
      else Some ((lineNumber, type, [content]) # tokens))"

fun forEachLine :: "Token list \<Rightarrow> ((nat \<times> TokenType \<times> string) \<times> nat) list \<Rightarrow> Token list option" where
  "forEachLine tokens [] = Some tokens"
| "forEachLine tokens (l # ls) =
     (case mergeLine tokens l of None \<Rightarrow> None | Some tokens' \<Rightarrow> forEachLine tokens' ls)"

text \<open>
  \<^verbatim>\<open>isEmpty\<close> of a string, of an array of strings, and of \<^verbatim>\<open>undefined\<close> (what reading
  an array out of range gives), where \<^verbatim>\<open>!val\<close> holds.
\<close>

definition isEmptyStr :: "string \<Rightarrow> bool" where
  "isEmptyStr val = (val = [] \<or> trim val = [])"

definition isEmptyArr :: "string list \<Rightarrow> bool" where
  "isEmptyArr val = isEmptyStr (join val [])"

definition isEmptyOpt :: "string option \<Rightarrow> bool" where
  "isEmptyOpt val = (case val of None \<Rightarrow> True | Some s \<Rightarrow> isEmptyStr s)"

text \<open>\<^verbatim>\<open>content[content.length - 1]\<close> and \<^verbatim>\<open>content[0]\<close>: undefined on the empty array.\<close>

definition lastElem :: "string list \<Rightarrow> string option" where
  "lastElem content = (if content = [] then None else Some (last content))"

definition firstElem :: "string list \<Rightarrow> string option" where
  "firstElem content = (case content of [] \<Rightarrow> None | x # _ \<Rightarrow> Some x)"

text \<open>
  The two trimming loops. \<^verbatim>\<open>pop\<close> and \<^verbatim>\<open>shift\<close> leave an empty array empty, so on
  a content with no line left each loop runs for ever: the value \<open>None\<close>.
\<close>

partial_function (option) popLoop :: "string list \<Rightarrow> string list option" where
  "popLoop content =
     (if isEmptyOpt (lastElem content) then popLoop (butlast content) else Some content)"

partial_function (option) shiftLoop :: "string list \<Rightarrow> string list option" where
  "shiftLoop content =
     (if isEmptyOpt (firstElem content) then shiftLoop (tl content) else Some content)"

declare popLoop.simps [code]
declare shiftLoop.simps [code]

definition trimToken :: "Token \<Rightarrow> Token option" where
  "trimToken token =
     (case token of (lineNumber, type, content) \<Rightarrow>
        (case popLoop content of
           None \<Rightarrow> None
         | Some content' \<Rightarrow>
             (case shiftLoop content' of
                None \<Rightarrow> None
              | Some content'' \<Rightarrow> Some (lineNumber, type, content''))))"

text \<open>\<open>None\<close>: the call does not return (a loop runs for ever, or an index faults).\<close>

definition tokenize :: "string \<Rightarrow> Token list option" where
  "tokenize markdown =
     (let lines = split (trim markdown);
          mapped = map (\<lambda>(line, index). classify line index) (zip lines [0 ..< length lines])
      in case forEachLine [] (zip mapped [0 ..< length mapped]) of
           None \<Rightarrow> None
         | Some tokens \<Rightarrow>
             map_option rev
               (those (map trimToken (filter (\<lambda>token. \<not> isEmptyArr (snd (snd token))) tokens))))"

section \<open>The changelog and its releases\<close>

text \<open>
  Modelled from the spec: the class \<^verbatim>\<open>Release\<close> (\<^verbatim>\<open>./Release.ts\<close>, not among the
  sources). The spec gives it a version, a date and a description supplied to the
  constructor, all optional, a description that can be set, and \<^verbatim>\<open>addChange\<close>, which
  keeps the entries of a type in insertion order and collects repeats of a type in one
  list.
\<close>

record Release =
  r_version :: "string option"
  r_date :: "string option"
  r_description :: "string option"
  r_changes :: "(string \<times> string list) list"

definition newRelease :: "string option \<Rightarrow> string option \<Rightarrow> string option \<Rightarrow> Release" where
  "newRelease version date description =
     \<lparr>r_version = version, r_date = date, r_description = description, r_changes = []\<rparr>"

fun addEntry :: "(string \<times> string list) list \<Rightarrow> string \<Rightarrow> string \<Rightarrow> (string \<times> string list) list" where
  "addEntry [] type change = [(type, [change])]"
| "addEntry ((t, cs) # rest) type change =
     (if t = type then (t, cs @ [change]) # rest else (t, cs) # addEntry rest type change)"

definition addChange :: "Release \<Rightarrow> string \<Rightarrow> string \<Rightarrow> Release" where
  "addChange release type change =
     release\<lparr>r_changes := addEntry (r_changes release) type change\<rparr>"

text \<open>
  Modelled from the spec: the class \<^verbatim>\<open>Changelog\<close> (\<^verbatim>\<open>./Changelog.ts\<close>, not among the
  sources): a flag, a title, a description, the releases in the order in which they were
  added, a URL and a footer (the last two unset until the parser assigns them).
\<close>

record Changelog =
  c_flag :: string
  c_title :: string
  c_description :: string
  c_releases :: "Release list"
  c_url :: "string option"
  c_footer :: "string option"

definition newChangelog :: "string \<Rightarrow> Changelog" where
  "newChangelog title =
     \<lparr>c_flag = [], c_title = title, c_description = [], c_releases = [],
      c_url = None, c_footer = None\<rparr>"

definition addRelease :: "Changelog \<Rightarrow> Release \<Rightarrow> Changelog" where
  "addRelease changelog release = changelog\<lparr>c_releases := c_releases changelog @ [release]\<rparr>"

record Options =
  releaseCreator :: "string option \<Rightarrow> string option \<Rightarrow> string option \<Rightarrow> Release"

definition defaultOptions :: Options where
  "defaultOptions = \<lparr>releaseCreator = (\<lambda>version date description. newRelease version date description)\<rparr>"

section \<open>The grammar consumer\<close>

text \<open>
  What is thrown inside \<^verbatim>\<open>processTokens\<close>. \<open>TypeError\<close> is the fault of reading
  \<^verbatim>\<open>tokens[0][0]\<close> when \<^verbatim>\<open>tokens[0]\<close> is undefined. A failure carries the token array as
  it is at that moment, since the caller shares the array and reads it afterwards.
\<close>

datatype error =
    RequiredTokenMissing nat
  | ReleaseTitleSyntaxError
  | UnexpectedContent "Token list"
  | TypeError

type_synonym 'a result = "(error \<times> Token list) + 'a"

fun getContent :: "Token list \<Rightarrow> TokenType \<Rightarrow> bool \<Rightarrow> (string \<times> Token list) result" where
  "getContent [] type required =
     (if required then Inl (TypeError, []) else Inr ([], []))"
| "getContent ((lineNumber, t, content) # rest) type required =
     (if t \<noteq> type then
        (if required then Inl (RequiredTokenMissing lineNumber, (lineNumber, t, content) # rest)
         else Inr ([], (lineNumber, t, content) # rest))
      else Inr (join content ''\<newline>'', rest))"

lemma getContent_length:
  "getContent tokens type required = Inr (c, tokens') \<Longrightarrow> length tokens' \<le> length tokens"
  by (cases "(tokens, type, required)" rule: getContent.cases) (auto split: if_splits)

lemma getContent_consumes:
  "getContent tokens type required = Inr (c, tokens') \<Longrightarrow> c \<noteq> [] \<Longrightarrow>
     length tokens' < length tokens"
  by (cases "(tokens, type, required)" rule: getContent.cases) (auto split: if_splits)

text \<open>\<^verbatim>\<open>while ((change = getContent(tokens, "li"))) release.addChange(type, change)\<close>\<close>

function changesLoop :: "string \<Rightarrow> Release \<Rightarrow> Token list \<Rightarrow> (Release \<times> Token list) result" where
  "changesLoop type release tokens =
     (case getContent tokens LI False of
        Inl e \<Rightarrow> Inl e
      | Inr (change, tokens') \<Rightarrow>
          if change \<noteq> [] then changesLoop type (addChange release type change) tokens'
          else Inr (release, tokens'))"
  by pat_completeness auto
termination
  by (relation "measure (\<lambda>(type, release, tokens). length tokens)")
     (auto dest: getContent_consumes)

declare changesLoop.simps [simp del]

lemma changesLoop_length:
  "changesLoop type release tokens = Inr (release', tokens') \<Longrightarrow> length tokens' \<le> length tokens"
proof (induction type release tokens rule: changesLoop.induct)
  case (1 type release tokens)
  then show ?case
    by (auto split: sum.splits if_splits dest: getContent_length
          simp add: changesLoop.simps [of type release tokens]) (fastforce dest: getContent_length)+
qed

text \<open>\<^verbatim>\<open>while ((type = getContent(tokens, "h3").toLowerCase())) { ... }\<close>\<close>

function typesLoop :: "Release \<Rightarrow> Token list \<Rightarrow> (Release \<times> Token list) result" where
  "typesLoop release tokens =
     (case getContent tokens H3 False of
        Inl e \<Rightarrow> Inl e
      | Inr (content, tokens') \<Rightarrow>
          (let type = toLowerCase content in
           if type \<noteq> [] then
             (case changesLoop type release tokens' of
                Inl e \<Rightarrow> Inl e
              | Inr (release', tokens'') \<Rightarrow> typesLoop release' tokens'')
           else Inr (release, tokens')))"
  by pat_completeness auto
termination
proof (relation "measure (\<lambda>(release, tokens). length tokens)", goal_cases)
  case 1
  show ?case by simp
next
  case (2 release tokens x2 content tokens' type x2a release' tokens'')
  then have "content \<noteq> []" by (auto simp: toLowerCase_def)
  with 2 have "length tokens' < length tokens" by (auto dest: getContent_consumes)
  moreover from 2 have "length tokens'' \<le> length tokens'" by (auto dest: changesLoop_length)
  ultimately show ?case by simp
qed

declare typesLoop.simps [simp del]

lemma typesLoop_length:
  "typesLoop release tokens = Inr (release', tokens') \<Longrightarrow> length tokens' \<le> length tokens"
proof (induction release tokens rule: typesLoop.induct)
  case (1 release tokens)
  obtain content tokens1 where g: "getContent tokens H3 False = Inr (content, tokens1)"
    using "1.prems" by (subst (asm) typesLoop.simps) (auto split: sum.splits)
  then have l1: "length tokens1 \<le> length tokens" by (rule getContent_length)
  show ?case
  proof (cases "toLowerCase content = []")
    case True
    with g "1.prems" have "tokens' = tokens1"
      by (subst (asm) typesLoop.simps) simp
    with l1 show ?thesis by simp
  next
    case False
    with g "1.prems" obtain release2 tokens2 where
      c: "changesLoop (toLowerCase content) release tokens1 = Inr (release2, tokens2)" and
      t: "typesLoop release2 tokens2 = Inr (release', tokens')"
      by (subst (asm) typesLoop.simps) (auto split: sum.splits simp: Let_def)
    from c have "length tokens2 \<le> length tokens1" by (rule changesLoop_length)
    moreover have "length tokens' \<le> length tokens2"
      using "1.IH" [OF g refl refl False c refl t] .
    ultimately show ?thesis using l1 by simp
  qed
qed

text \<open>
  The branch on the header of a release: the arguments with which the factory is called
  (a missing argument is undefined), or the syntax error.
\<close>

definition releaseArgs :: "string \<Rightarrow> error + (string option \<times> string option \<times> string option)" where
  "releaseArgs release =
     (case search datedRx release of
        Some matches \<Rightarrow> Inr (group matches 1, group matches 2, None)
      | None \<Rightarrow>
          if includesStr release ''unreleased'' then
            (case search unreleasedRx release of
               Some matches \<Rightarrow> Inr (group matches 1, None, None)
             | None \<Rightarrow> Inr (None, None, None))
          else Inl ReleaseTitleSyntaxError)"

definition createRelease :: "Options \<Rightarrow> string \<Rightarrow> error + Release" where
  "createRelease opts release =
     (case releaseArgs release of
        Inl e \<Rightarrow> Inl e
      | Inr (version, date, description) \<Rightarrow> Inr (releaseCreator opts version date description))"

text \<open>
  \<^verbatim>\<open>while ((release = getContent(tokens, "h2").toLowerCase())) { ... }\<close>.
  \<^verbatim>\<open>changelog.addRelease(release)\<close> comes before the description and the changes are
  set on the same object; the model adds the release once it is complete, which gives the
  same list.
\<close>

function releasesLoop :: "Options \<Rightarrow> Changelog \<Rightarrow> Token list \<Rightarrow> (Changelog \<times> Token list) result" where
  "releasesLoop opts changelog tokens =
     (case getContent tokens H2 False of
        Inl e \<Rightarrow> Inl e
      | Inr (content, tokens1) \<Rightarrow>
          (let release = toLowerCase content in
           if release \<noteq> [] then
             (case createRelease opts release of
                Inl e \<Rightarrow> Inl (e, tokens1)
              | Inr release0 \<Rightarrow>
                  (case getContent tokens1 P False of
                     Inl e \<Rightarrow> Inl e
                   | Inr (description, tokens2) \<Rightarrow>
                       (case typesLoop (release0\<lparr>r_description := Some description\<rparr>) tokens2 of
                          Inl e \<Rightarrow> Inl e
                        | Inr (release1, tokens3) \<Rightarrow>
                            releasesLoop opts (addRelease changelog release1) tokens3)))
           else Inr (changelog, tokens1)))"
  by pat_completeness auto
termination
proof (relation "measure (\<lambda>(opts, changelog, tokens). length tokens)", goal_cases)
  case 1
  show ?case by simp
next
  case (2 opts changelog tokens x2 content tokens1 release release0 x2b description tokens2 x2c
      release1 tokens3)
  then have "content \<noteq> []" by (auto simp: toLowerCase_def)
  with 2 have "length tokens1 < length tokens" by (auto dest: getContent_consumes)
  moreover from 2 have "length tokens2 \<le> length tokens1" by (auto dest: getContent_length)
  moreover from 2 have "length tokens3 \<le> length tokens2" by (auto dest: typesLoop_length)
  ultimately show ?case by simp
qed

declare releasesLoop.simps [simp del]

text \<open>The loop over the reference links; the first compare link gives the URL.\<close>

definition setUrl :: "Changelog \<Rightarrow> string \<Rightarrow> Changelog" where
  "setUrl changelog link =
     (if c_url changelog = None \<or> c_url changelog = Some [] then
        (case execAt compareRx link of
           Some matches \<Rightarrow> changelog\<lparr>c_url := group matches 1\<rparr>
         | None \<Rightarrow> changelog)
      else changelog)"

function linksLoop :: "Changelog \<Rightarrow> Token list \<Rightarrow> (Changelog \<times> Token list) result" where
  "linksLoop changelog tokens =
     (case getContent tokens LINK False of
        Inl e \<Rightarrow> Inl e
      | Inr (link, tokens') \<Rightarrow>
          if link \<noteq> [] then linksLoop (setUrl changelog link) tokens'
          else Inr (changelog, tokens'))"
  by pat_completeness auto
termination
  by (relation "measure (\<lambda>(changelog, tokens). length tokens)")
     (auto dest: getContent_consumes)

declare linksLoop.simps [simp del]

text \<open>\<^verbatim>\<open>if (getContent(tokens, "hr")) changelog.footer = getContent(tokens, "p")\<close>\<close>

definition footer :: "Changelog \<Rightarrow> Token list \<Rightarrow> (Changelog \<times> Token list) result" where
  "footer changelog tokens =
     (case getContent tokens HR False of
        Inl e \<Rightarrow> Inl e
      | Inr (rule, tokens') \<Rightarrow>
          if rule \<noteq> [] then
            (case getContent tokens' P False of
               Inl e \<Rightarrow> Inl e
             | Inr (text, tokens'') \<Rightarrow> Inr (changelog\<lparr>c_footer := Some text\<rparr>, tokens''))
          else Inr (changelog, tokens'))"

text \<open>\<^verbatim>\<open>processTokens\<close>: the grammar, in its fixed order.\<close>

definition processTokens :: "Token list \<Rightarrow> Options \<Rightarrow> Changelog result" where
  "processTokens tokens opts =
     (case getContent tokens FLAG False of
        Inl e \<Rightarrow> Inl e
      | Inr (flag, tokens1) \<Rightarrow>
     (case getContent tokens1 H1 True of
        Inl e \<Rightarrow> Inl e
      | Inr (title, tokens2) \<Rightarrow>
     (case getContent tokens2 P False of
        Inl e \<Rightarrow> Inl e
      | Inr (description, tokens3) \<Rightarrow>
     (case releasesLoop opts
             ((newChangelog [])\<lparr>c_flag := flag, c_title := title, c_description := description\<rparr>)
             tokens3 of
        Inl e \<Rightarrow> Inl e
      | Inr (changelog1, tokens4) \<Rightarrow>
     (case linksLoop changelog1 tokens4 of
        Inl e \<Rightarrow> Inl e
      | Inr (changelog2, tokens5) \<Rightarrow>
     (case footer changelog2 tokens5 of
        Inl e \<Rightarrow> Inl e
      | Inr (changelog3, tokens6) \<Rightarrow>
          if tokens6 \<noteq> [] then Inl (UnexpectedContent tokens6, tokens6)
          else Inr changelog3))))))"

text \<open>
  What \<^verbatim>\<open>parser\<close> throws: the error it builds in its handler, with the line number
  \<^verbatim>\<open>tokens[0][0]\<close> and the error caught, or the fault of reading \<^verbatim>\<open>tokens[0][0]\<close> in
  the handler when the array is empty.
\<close>

datatype thrown =
    ParseErrorInLine nat error
  | HandlerTypeError

text \<open>
  \<^verbatim>\<open>parser\<close>; \<open>opts\<close> is the options after \<^verbatim>\<open>Object.assign\<close>. \<open>None\<close>: the call does
  not return.
\<close>

definition parser :: "string \<Rightarrow> Options \<Rightarrow> (thrown + Changelog) option" where
  "parser markdown opts =
     (case tokenize markdown of
        None \<Rightarrow> None
      | Some tokens \<Rightarrow>
          Some (case processTokens tokens opts of
                  Inr changelog \<Rightarrow> Inr changelog
                | Inl (e, tokens') \<Rightarrow>
                    (case tokens' of
                       [] \<Rightarrow> Inl HandlerTypeError
                     | (lineNumber, _, _) # _ \<Rightarrow> Inl (ParseErrorInLine lineNumber e))))"

section \<open>Facts about strings\<close>

lemma toLowerCase_Nil_iff [simp]: "toLowerCase s = [] \<longleftrightarrow> s = []"
  by (simp add: toLowerCase_def)

lemma trim_Nil_iff: "trim s = [] \<longleftrightarrow> (\<forall>c\<in>set s. isSpace c)"
proof -
  have "trim s = [] \<longleftrightarrow> (\<forall>c\<in>set (dropWhile isSpace s). isSpace c)"
    by (simp add: trim_def trimEnd_def trimStart_def dropWhile_eq_Nil_conv)
  also have "\<dots> \<longleftrightarrow> (\<forall>c\<in>set s. isSpace c)"
    by (metis dropWhile_eq_Nil_conv dropWhile_idem)
  finally show ?thesis .
qed

section \<open>The example of a dated release\<close>

lemma tokenize_dated_example:
  "tokenize ''# Title\<newline>\<newline>## 1.0.0 - 2024-01-15\<newline>\<newline>### Added\<newline>- Thing one\<newline>- Thing two\<newline>'' =
     Some [(1, H1, [''Title'']), (3, H2, [''1.0.0 - 2024-01-15'']), (5, H3, [''Added'']),
           (6, LI, [''Thing one'']), (7, LI, [''Thing two''])]"
  by code_simp

lemma releaseArgs_dated_example:
  "releaseArgs (toLowerCase ''1.0.0 - 2024-01-15'') = Inr (Some ''1.0.0 '', Some ''2024-01-15'', None)"
  by code_simp

lemma toLowerCase_Added: "toLowerCase ''Added'' = ''added''"
  by code_simp

lemma processTokens_dated_example:
  "processTokens
     [(Suc 0, H1, [''Title'']), (3, H2, [''1.0.0 - 2024-01-15'']), (5, H3, [''Added'']),
      (6, LI, [''Thing one'']), (7, LI, [''Thing two''])] opts =
   Inr \<lparr>c_flag = [], c_title = ''Title'', c_description = [],
        c_releases =
          [addChange
             (addChange
                ((releaseCreator opts (Some ''1.0.0 '') (Some ''2024-01-15'') None)
                   \<lparr>r_description := Some []\<rparr>)
                ''added'' ''Thing one'')
             ''added'' ''Thing two''],
        c_url = None, c_footer = None\<rparr>"
  by (simp add: processTokens_def releasesLoop.simps typesLoop.simps changesLoop.simps
      linksLoop.simps footer_def createRelease_def releaseArgs_dated_example toLowerCase_Added
      newChangelog_def addRelease_def Let_def)

text \<open>
  C1, as the code has it. Parsing the example succeeds and gives a changelog with the
  title "Title" and exactly one release. The factory is called with the date
  "2024-01-15" and with the label "1.0.0 ", the text of group 1, which keeps the space
  before the dash (not "1.0.0"); the release gets the empty description and the two
  entries "Thing one" and "Thing two", in that order, under the type "added", which with
  the default factory is its only type of change.
\<close>

theorem parser_dated_example:
  "parser ''# Title\<newline>\<newline>## 1.0.0 - 2024-01-15\<newline>\<newline>### Added\<newline>- Thing one\<newline>- Thing two\<newline>'' opts =
   Some (Inr \<lparr>c_flag = [], c_title = ''Title'', c_description = [],
        c_releases =
          [addChange
             (addChange
                ((releaseCreator opts (Some ''1.0.0 '') (Some ''2024-01-15'') None)
                   \<lparr>r_description := Some []\<rparr>)
                ''added'' ''Thing one'')
             ''added'' ''Thing two''],
        c_url = None, c_footer = None\<rparr>)
   \<and> parser ''# Title\<newline>\<newline>## 1.0.0 - 2024-01-15\<newline>\<newline>### Added\<newline>- Thing one\<newline>- Thing two\<newline>'' defaultOptions =
   Some (Inr \<lparr>c_flag = [], c_title = ''Title'', c_description = [],
        c_releases =
          [\<lparr>r_version = Some ''1.0.0 '', r_date = Some ''2024-01-15'', r_description = Some [],
            r_changes = [(''added'', [''Thing one'', ''Thing two''])]\<rparr>],
        c_url = None, c_footer = None\<rparr>)"
  by (simp add: parser_def tokenize_dated_example processTokens_dated_example
      defaultOptions_def newRelease_def addChange_def)

text \<open>
  C1 as the spec states it fails: the factory is called with the label "1.0.0 ", with a
  trailing space, and not "1.0.0", and with the default factory that is the version of the
  one release of the example.
\<close>

theorem parser_dated_example_counterexample:
  "parser ''# Title\<newline>\<newline>## 1.0.0 - 2024-01-15\<newline>\<newline>### Added\<newline>- Thing one\<newline>- Thing two\<newline>'' defaultOptions =
   Some (Inr \<lparr>c_flag = [], c_title = ''Title'', c_description = [],
        c_releases =
          [\<lparr>r_version = Some ''1.0.0 '', r_date = Some ''2024-01-15'', r_description = Some [],
            r_changes = [(''added'', [''Thing one'', ''Thing two''])]\<rparr>],
        c_url = None, c_footer = None\<rparr>)
   \<and> releaseArgs (toLowerCase ''1.0.0 - 2024-01-15'') = Inr (Some ''1.0.0 '', Some ''2024-01-15'', None)
   \<and> Some ''1.0.0 '' \<noteq> Some ''1.0.0''"
  by (simp add: parser_def tokenize_dated_example processTokens_dated_example
      releaseArgs_dated_example defaultOptions_def newRelease_def addChange_def)

section \<open>The footer\<close>

lemma tokenize_empty: "tokenize [] = Some []"
  by code_simp

text \<open>
  C2 as the spec states it fails: a rule with no paragraph after it does not make the
  parse fail. The footer is read with \<^verbatim>\<open>getContent(tokens, "p")\<close>, not required, so the
  changelog is returned with the empty footer.
\<close>

theorem parser_rule_without_paragraph_counterexample:
  "parser ''# Title\<newline>\<newline>---\<newline>'' defaultOptions =
     Some (Inr \<lparr>c_flag = [], c_title = ''Title'', c_description = [], c_releases = [],
               c_url = None, c_footer = Some []\<rparr>)"
  by code_simp

lemma footer_step:
  "join rule ''\<newline>'' \<noteq> [] \<Longrightarrow>
     footer changelog ((n, HR, rule) # (m, P, text) # rest) =
       Inr (changelog\<lparr>c_footer := Some (join text ''\<newline>'')\<rparr>, rest)
     \<and> (rest = [] \<or> fst (snd (hd rest)) \<noteq> P \<longrightarrow>
          footer changelog ((n, HR, rule) # rest) = Inr (changelog\<lparr>c_footer := Some []\<rparr>, rest))"
  by (cases rest) (auto simp: footer_def)

text \<open>
  C2, as the code has it. When a rule token (of non-empty content, as the tokenizer builds
  it) is reached at the footer position, that is after the flag, the title, the
  description, the releases and the links, the parser takes the paragraph token right
  after it, if there is one, as the footer, without demanding it. The parse still fails,
  with the error of unexpected content, when a token that is no paragraph follows the
  rule, and when a token is left after the footer paragraph. Only when the rule is the
  last token does the parse succeed with no paragraph: the footer is then the empty
  string.
\<close>

theorem processTokens_after_rule:
  assumes "getContent tokens FLAG False = Inr (flag, tokens1)"
    and "getContent tokens1 H1 True = Inr (title, tokens2)"
    and "getContent tokens2 P False = Inr (description, tokens3)"
    and "releasesLoop opts
           ((newChangelog [])\<lparr>c_flag := flag, c_title := title, c_description := description\<rparr>)
           tokens3 = Inr (changelog1, tokens4)"
    and "linksLoop changelog1 tokens4 = Inr (changelog2, (n, HR, rule) # rest)"
    and "join rule ''\<newline>'' \<noteq> []"
  shows "(rest = [] \<longrightarrow>
            processTokens tokens opts = Inr (changelog2\<lparr>c_footer := Some []\<rparr>))
     \<and> (rest = [(m, P, text)] \<longrightarrow>
            processTokens tokens opts = Inr (changelog2\<lparr>c_footer := Some (join text ''\<newline>'')\<rparr>))
     \<and> (rest = (m, P, text) # following # others \<longrightarrow>
            processTokens tokens opts = Inl (UnexpectedContent (following # others), following # others))
     \<and> (rest \<noteq> [] \<and> fst (snd (hd rest)) \<noteq> P \<longrightarrow>
            processTokens tokens opts = Inl (UnexpectedContent rest, rest))"
proof -
  have p: "processTokens tokens opts =
      (case footer changelog2 ((n, HR, rule) # rest) of
         Inl e \<Rightarrow> Inl e
       | Inr (changelog3, tokens6) \<Rightarrow>
           if tokens6 \<noteq> [] then Inl (UnexpectedContent tokens6, tokens6) else Inr changelog3)"
    using assms(1-5) by (simp add: processTokens_def)
  show ?thesis
    unfolding p
    using footer_step [OF assms(6), of changelog2 n m "text" "[]"]
      footer_step [OF assms(6), of changelog2 n m "text" "following # others"]
      footer_step [OF assms(6), of changelog2 n m "text" rest]
    by auto
qed

theorem processTokens_after_rule_witness:
  "processTokens [(1, H1, [''Title'']), (3, HR, [''-''])] defaultOptions =
     Inr \<lparr>c_flag = [], c_title = ''Title'', c_description = [], c_releases = [],
          c_url = None, c_footer = Some []\<rparr>
   \<and> processTokens [(1, H1, [''Title'']), (3, HR, [''-'']), (5, P, [''bye'', ''now''])] defaultOptions =
     Inr \<lparr>c_flag = [], c_title = ''Title'', c_description = [], c_releases = [],
          c_url = None, c_footer = Some ''bye\<newline>now''\<rparr>
   \<and> processTokens [(1, H1, [''Title'']), (3, HR, [''-'']), (4, H2, [''x''])] defaultOptions =
     Inl (UnexpectedContent [(4, H2, [''x''])], [(4, H2, [''x''])])
   \<and> processTokens [(1, H1, [''Title'']), (3, HR, [''-'']), (5, P, [''bye'']), (7, H2, [''x''])]
       defaultOptions =
     Inl (UnexpectedContent [(7, H2, [''x''])], [(7, H2, [''x''])])"
proof -
  let ?cl = "(newChangelog [])\<lparr>c_flag := [], c_title := ''Title'', c_description := []\<rparr>"
  have g1: "getContent ((1, H1, [''Title'']) # (3, HR, [''-'']) # rest) FLAG False =
      Inr ([], (1, H1, [''Title'']) # (3, HR, [''-'']) # rest)" for rest
    by simp
  have g2: "getContent ((1, H1, [''Title'']) # (3, HR, [''-'']) # rest) H1 True =
      Inr (''Title'', (3, HR, [''-'']) # rest)" for rest
    by simp
  have g3: "getContent ((3, HR, [''-'']) # rest) P False = Inr ([], (3, HR, [''-'']) # rest)" for rest
    by simp
  have r: "releasesLoop defaultOptions ?cl ((3, HR, [''-'']) # rest) =
      Inr (?cl, (3, HR, [''-'']) # rest)" for rest
    by (simp add: releasesLoop.simps)
  have l: "linksLoop ?cl ((3, HR, [''-'']) # rest) = Inr (?cl, (3, HR, [''-'']) # rest)" for rest
    by (simp add: linksLoop.simps)
  have j: "join [''-''] ''\<newline>'' \<noteq> []" by simp
  note w = processTokens_after_rule [OF g1 g2 g3 r l j]
  from w [of "[]"] w [of "[(5, P, [''bye'', ''now''])]" 5 "[''bye'', ''now'']"]
    w [of "[(4, H2, [''x''])]"]
    w [of "[(5, P, [''bye'']), (7, H2, [''x''])]" 5 "[''bye'']" "(7, H2, [''x''])" "[]"]
  show ?thesis
    by (simp add: newChangelog_def)
qed

section \<open>The missing title\<close>

text \<open>
  C3. A token stream that does not start, after an optional flag token, with a title
  never gives a changelog. When a token is at the front, the failure is the error
  "Required token missing" with the line of that token. When the stream is exhausted
  there (the empty stream, or a flag alone), building the message of that error reads
  \<^verbatim>\<open>tokens[0][0]\<close> of an empty array: the failure is a type error, and for the empty
  input the handler of \<^verbatim>\<open>parser\<close> faults in the same way.
\<close>

theorem processTokens_without_title:
  "processTokens [] opts = Inl (TypeError, [])
   \<and> processTokens [(m, FLAG, f)] opts = Inl (TypeError, [])
   \<and> (t \<noteq> H1 \<and> t \<noteq> FLAG \<longrightarrow>
        processTokens ((n, t, c) # rest) opts = Inl (RequiredTokenMissing n, (n, t, c) # rest))
   \<and> (t \<noteq> H1 \<longrightarrow>
        processTokens ((m, FLAG, f) # (n, t, c) # rest) opts =
          Inl (RequiredTokenMissing n, (n, t, c) # rest))
   \<and> parser [] opts = Some (Inl HandlerTypeError)"
  by (simp add: processTokens_def parser_def tokenize_empty)

theorem processTokens_without_title_witness:
  "processTokens [(2, P, [''hello'']), (4, H1, [''Title''])] defaultOptions =
     Inl (RequiredTokenMissing 2, [(2, P, [''hello'']), (4, H1, [''Title''])])
   \<and> processTokens [(1, FLAG, [''x'']), (2, H2, [''y''])] defaultOptions =
     Inl (RequiredTokenMissing 2, [(2, H2, [''y''])])
   \<and> processTokens [] defaultOptions = Inl (TypeError, [])
   \<and> parser [] defaultOptions = Some (Inl HandlerTypeError)"
  using processTokens_without_title [of defaultOptions 1 "[''x'']" P 2 "[''hello'']" "[(4, H1, [''Title''])]"]
    processTokens_without_title [of defaultOptions 1 "[''x'']" H2 2 "[''y'']" "[]"]
  by simp

section \<open>The queue at a failure\<close>

text \<open>
  The token array that a failure of \<^verbatim>\<open>processTokens\<close> leaves behind is what is left of the
  input tokens: a suffix of them.
\<close>

lemma getContent_optional: "getContent tokens type False \<noteq> Inl x"
  by (cases "(tokens, type, False)" rule: getContent.cases) auto

lemma getContent_Inr_suffix:
  "getContent tokens type required = Inr (c, tokens') \<Longrightarrow> suffix tokens' tokens"
  by (cases "(tokens, type, required)" rule: getContent.cases)
     (auto split: if_splits intro: suffix_ConsI)

lemma getContent_Inl_queue:
  "getContent tokens type required = Inl (e, tokens') \<Longrightarrow> tokens' = tokens"
  by (cases "(tokens, type, required)" rule: getContent.cases) (auto split: if_splits)

lemma changesLoop_suffix:
  "changesLoop type release tokens = Inr (release', tokens') \<Longrightarrow> suffix tokens' tokens"
  "changesLoop type release tokens \<noteq> Inl x"
proof (induction type release tokens arbitrary: release' tokens' x rule: changesLoop.induct)
  case (1 type release tokens)
  obtain change tokens1 where g: "getContent tokens LI False = Inr (change, tokens1)"
    using getContent_optional [of tokens LI] by (cases "getContent tokens LI False") auto
  then have s1: "suffix tokens1 tokens" by (rule getContent_Inr_suffix)
  {
    case 1
    show ?case
    proof (cases "change = []")
      case True
      with g 1 s1 show ?thesis by (simp add: changesLoop.simps [of type release tokens])
    next
      case False
      with g 1 have "changesLoop type (addChange release type change) tokens1 = Inr (release', tokens')"
        by (simp add: changesLoop.simps [of type release tokens])
      from "1.IH"(1) [OF g refl False this] s1 show ?thesis
        by (rule suffix_order.trans)
    qed
  next
    case 2
    show ?case
    proof (cases "change = []")
      case True
      with g show ?thesis by (simp add: changesLoop.simps [of type release tokens])
    next
      case False
      with g "1.IH"(2) [OF g refl False] show ?thesis
        by (simp add: changesLoop.simps [of type release tokens])
    qed
  }
qed


lemma typesLoop_suffix:
  "typesLoop release tokens = Inr (release', tokens') \<Longrightarrow> suffix tokens' tokens"
  "typesLoop release tokens \<noteq> Inl x"
proof (induction release tokens arbitrary: release' tokens' x rule: typesLoop.induct)
  case (1 release tokens)
  obtain content tokens1 where g: "getContent tokens H3 False = Inr (content, tokens1)"
    using getContent_optional [of tokens H3] by (cases "getContent tokens H3 False") auto
  then have s1: "suffix tokens1 tokens" by (rule getContent_Inr_suffix)
  obtain release2 tokens2 where
    c: "changesLoop (toLowerCase content) release tokens1 = Inr (release2, tokens2)"
    using changesLoop_suffix(2) [of "toLowerCase content" release tokens1]
    by (cases "changesLoop (toLowerCase content) release tokens1") auto
  then have s2: "suffix tokens2 tokens1" by (rule changesLoop_suffix(1))
  {
    case 1
    show ?case
    proof (cases "toLowerCase content = []")
      case True
      with g 1 s1 show ?thesis by (simp add: typesLoop.simps [of release tokens])
    next
      case False
      with g c 1 have "typesLoop release2 tokens2 = Inr (release', tokens')"
        by (simp add: typesLoop.simps [of release tokens] Let_def)
      from "1.IH"(1) [OF g refl refl False c refl this] have "suffix tokens' tokens2" .
      from this s2 have "suffix tokens' tokens1" by (rule suffix_order.trans)
      from this s1 show ?thesis by (rule suffix_order.trans)
    qed
  next
    case 2
    show ?case
    proof (cases "toLowerCase content = []")
      case True
      with g show ?thesis by (simp add: typesLoop.simps [of release tokens])
    next
      case False
      with g c "1.IH"(2) [OF g refl refl False c refl] show ?thesis
        by (simp add: typesLoop.simps [of release tokens] Let_def)
    qed
  }
qed

lemma releasesLoop_unfold:
  assumes "getContent tokens H2 False = Inr (content, tokens1)"
  shows "releasesLoop opts changelog tokens =
     (if toLowerCase content = [] then Inr (changelog, tokens1)
      else case createRelease opts (toLowerCase content) of
             Inl e \<Rightarrow> Inl (e, tokens1)
           | Inr release0 \<Rightarrow>
               (case getContent tokens1 P False of
                  Inl e \<Rightarrow> Inl e
                | Inr (description, tokens2) \<Rightarrow>
                    (case typesLoop (release0\<lparr>r_description := Some description\<rparr>) tokens2 of
                       Inl e \<Rightarrow> Inl e
                     | Inr (release1, tokens3) \<Rightarrow>
                         releasesLoop opts (addRelease changelog release1) tokens3)))"
  by (subst releasesLoop.simps) (simp add: assms Let_def)

lemma releasesLoop_suffix_both:
  "releasesLoop opts changelog tokens = res \<Longrightarrow>
     res = Inr (changelog', tokens') \<or> res = Inl (e, tokens') \<Longrightarrow> suffix tokens' tokens"
proof (induction opts changelog tokens arbitrary: res rule: releasesLoop.induct)
  case (1 opts changelog tokens)
  obtain content tokens1 where g: "getContent tokens H2 False = Inr (content, tokens1)"
    using getContent_optional [of tokens H2] by (cases "getContent tokens H2 False") auto
  then have s1: "suffix tokens1 tokens" by (rule getContent_Inr_suffix)
  note u = releasesLoop_unfold [OF g, of opts changelog]
  show ?case
  proof (cases "toLowerCase content = []")
    case True
    with u "1.prems" have "tokens' = tokens1" by auto
    with s1 show ?thesis by simp
  next
    case False
    show ?thesis
    proof (cases "createRelease opts (toLowerCase content)")
      case (Inl err)
      with u False "1.prems" have "tokens' = tokens1" by auto
      with s1 show ?thesis by simp
    next
      case (Inr release0)
      obtain description tokens2 where g2: "getContent tokens1 P False = Inr (description, tokens2)"
        using getContent_optional [of tokens1 P] by (cases "getContent tokens1 P False") auto
      then have s2: "suffix tokens2 tokens1" by (rule getContent_Inr_suffix)
      obtain release1 tokens3 where
        t: "typesLoop (release0\<lparr>r_description := Some description\<rparr>) tokens2 = Inr (release1, tokens3)"
        using typesLoop_suffix(2) [of "release0\<lparr>r_description := Some description\<rparr>" tokens2]
        by (cases "typesLoop (release0\<lparr>r_description := Some description\<rparr>) tokens2") auto
      then have s3: "suffix tokens3 tokens2" by (rule typesLoop_suffix(1))
      from u False Inr g2 t have "releasesLoop opts changelog tokens =
          releasesLoop opts (addRelease changelog release1) tokens3"
        by simp
      with "1.prems"(1) have rec: "releasesLoop opts (addRelease changelog release1) tokens3 = res"
        by simp
      have "suffix tokens' tokens3"
        by (rule "1.IH" [OF g refl refl False Inr g2 refl t refl rec "1.prems"(2)])
      from this s3 have "suffix tokens' tokens2" by (rule suffix_order.trans)
      from this s2 have "suffix tokens' tokens1" by (rule suffix_order.trans)
      from this s1 show ?thesis by (rule suffix_order.trans)
    qed
  qed
qed

lemma releasesLoop_suffix:
  "releasesLoop opts changelog tokens = Inr (changelog', tokens') \<Longrightarrow> suffix tokens' tokens"
  "releasesLoop opts changelog tokens = Inl (e, tokens') \<Longrightarrow> suffix tokens' tokens"
  by (erule releasesLoop_suffix_both, simp)+

lemma linksLoop_suffix:
  "linksLoop changelog tokens = Inr (changelog', tokens') \<Longrightarrow> suffix tokens' tokens"
  "linksLoop changelog tokens \<noteq> Inl x"
proof (induction changelog tokens arbitrary: changelog' tokens' x rule: linksLoop.induct)
  case (1 changelog tokens)
  obtain link tokens1 where g: "getContent tokens LINK False = Inr (link, tokens1)"
    using getContent_optional [of tokens LINK] by (cases "getContent tokens LINK False") auto
  then have s1: "suffix tokens1 tokens" by (rule getContent_Inr_suffix)
  {
    case 1
    show ?case
    proof (cases "link = []")
      case True
      with g 1 s1 show ?thesis by (simp add: linksLoop.simps [of changelog tokens])
    next
      case False
      with g 1 have "linksLoop (setUrl changelog link) tokens1 = Inr (changelog', tokens')"
        by (simp add: linksLoop.simps [of changelog tokens])
      from "1.IH"(1) [OF g refl False this] s1 show ?thesis
        by (rule suffix_order.trans)
    qed
  next
    case 2
    show ?case
    proof (cases "link = []")
      case True
      with g show ?thesis by (simp add: linksLoop.simps [of changelog tokens])
    next
      case False
      with g "1.IH"(2) [OF g refl False] show ?thesis
        by (simp add: linksLoop.simps [of changelog tokens])
    qed
  }
qed

lemma footer_suffix:
  "footer changelog tokens = Inr (changelog', tokens') \<Longrightarrow> suffix tokens' tokens"
  "footer changelog tokens \<noteq> Inl x"
proof -
  obtain rule tokens1 where g: "getContent tokens HR False = Inr (rule, tokens1)"
    using getContent_optional [of tokens HR] by (cases "getContent tokens HR False") auto
  then have s1: "suffix tokens1 tokens" by (rule getContent_Inr_suffix)
  obtain text' tokens2 where g2: "getContent tokens1 P False = Inr (text', tokens2)"
    using getContent_optional [of tokens1 P] by (cases "getContent tokens1 P False") auto
  then have "suffix tokens2 tokens1" by (rule getContent_Inr_suffix)
  from this s1 have s2: "suffix tokens2 tokens" by (rule suffix_order.trans)
  from g g2 show "footer changelog tokens \<noteq> Inl x"
    by (simp add: footer_def)
  assume "footer changelog tokens = Inr (changelog', tokens')"
  with g g2 s1 s2 show "suffix tokens' tokens"
    by (auto simp: footer_def split: if_splits)
qed

lemma processTokens_queue:
  assumes "processTokens tokens opts = Inl (e, tokens')"
  shows "suffix tokens' tokens"
proof -
  obtain flag tokens1 where g1: "getContent tokens FLAG False = Inr (flag, tokens1)"
    using getContent_optional [of tokens FLAG] by (cases "getContent tokens FLAG False") auto
  then have s1: "suffix tokens1 tokens" by (rule getContent_Inr_suffix)
  show ?thesis
  proof (cases "getContent tokens1 H1 True")
    case (Inl x)
    with g1 assms have "x = (e, tokens')" by (simp add: processTokens_def)
    with Inl have "tokens' = tokens1" by (auto dest: getContent_Inl_queue)
    with s1 show ?thesis by simp
  next
    case (Inr y)
    then obtain title tokens2 where g2: "getContent tokens1 H1 True = Inr (title, tokens2)"
      by (cases y) auto
    then have "suffix tokens2 tokens1" by (rule getContent_Inr_suffix)
    from this s1 have s2: "suffix tokens2 tokens" by (rule suffix_order.trans)
    obtain description tokens3 where g3: "getContent tokens2 P False = Inr (description, tokens3)"
      using getContent_optional [of tokens2 P] by (cases "getContent tokens2 P False") auto
    then have "suffix tokens3 tokens2" by (rule getContent_Inr_suffix)
    from this s2 have s3: "suffix tokens3 tokens" by (rule suffix_order.trans)
    define changelog0 where
      "changelog0 = (newChangelog [])\<lparr>c_flag := flag, c_title := title, c_description := description\<rparr>"
    show ?thesis
    proof (cases "releasesLoop opts changelog0 tokens3")
      case (Inl x)
      with g1 g2 g3 assms have "releasesLoop opts changelog0 tokens3 = Inl (e, tokens')"
        by (simp add: processTokens_def changelog0_def)
      then have "suffix tokens' tokens3" by (rule releasesLoop_suffix(2))
      from this s3 show ?thesis by (rule suffix_order.trans)
    next
      case (Inr y)
      then obtain changelog1 tokens4 where
        r: "releasesLoop opts changelog0 tokens3 = Inr (changelog1, tokens4)" by (cases y) auto
      then have "suffix tokens4 tokens3" by (rule releasesLoop_suffix(1))
      from this s3 have s4: "suffix tokens4 tokens" by (rule suffix_order.trans)
      obtain changelog2 tokens5 where l: "linksLoop changelog1 tokens4 = Inr (changelog2, tokens5)"
        using linksLoop_suffix(2) [of changelog1 tokens4]
        by (cases "linksLoop changelog1 tokens4") auto
      then have "suffix tokens5 tokens4" by (rule linksLoop_suffix(1))
      from this s4 have s5: "suffix tokens5 tokens" by (rule suffix_order.trans)
      obtain changelog3 tokens6 where f: "footer changelog2 tokens5 = Inr (changelog3, tokens6)"
        using footer_suffix(2) [of changelog2 tokens5]
        by (cases "footer changelog2 tokens5") auto
      then have "suffix tokens6 tokens5" by (rule footer_suffix(1))
      from this s5 have s6: "suffix tokens6 tokens" by (rule suffix_order.trans)
      from g1 g2 g3 r l f assms have "tokens' = tokens6"
        by (simp add: processTokens_def changelog0_def split: if_splits)
      with s6 show ?thesis by simp
    qed
  qed
qed

section \<open>The line of a parse error\<close>

text \<open>
  C4. When \<^verbatim>\<open>processTokens\<close> fails with a token left in the queue, \<^verbatim>\<open>parser\<close> throws an
  error with the line number of the token at the front of the queue at that moment (the
  queue being the input tokens not yet taken). When
  it fails with the queue empty, the handler itself faults on \<^verbatim>\<open>tokens[0][0]\<close> and the
  failure caught is lost; the empty input, which gives no token, is such an input.
\<close>

theorem parser_error_line:
  "(tokenize markdown = Some tokens \<and> processTokens tokens opts = Inl (e, (n, t, c) # rest) \<longrightarrow>
      parser markdown opts = Some (Inl (ParseErrorInLine n e)) \<and> suffix ((n, t, c) # rest) tokens)
   \<and> (tokenize markdown = Some tokens \<and> processTokens tokens opts = Inl (e, []) \<longrightarrow>
      parser markdown opts = Some (Inl HandlerTypeError))
   \<and> tokenize [] = Some [] \<and> processTokens [] opts = Inl (TypeError, [])
   \<and> parser [] opts = Some (Inl HandlerTypeError)"
  using processTokens_queue [of tokens opts e "(n, t, c) # rest"]
  by (simp add: parser_def tokenize_empty processTokens_def)

lemma tokenize_bad_header_example:
  "tokenize ''# Title\<newline>\<newline>## not a valid header\<newline>foo'' =
     Some [(1, H1, [''Title'']), (3, H2, [''not a valid header'']), (4, P, [''foo''])]"
  by code_simp

lemma processTokens_bad_header_example:
  "processTokens [(1, H1, [''Title'']), (3, H2, [''not a valid header'']), (4, P, [''foo''])]
     defaultOptions = Inl (ReleaseTitleSyntaxError, [(4, P, [''foo''])])"
  by code_simp

lemma tokenize_bad_header_last_example:
  "tokenize ''# Title\<newline>\<newline>## not a valid header\<newline>'' =
     Some [(1, H1, [''Title'']), (3, H2, [''not a valid header''])]"
  by code_simp

lemma processTokens_bad_header_last_example:
  "processTokens [(1, H1, [''Title'']), (3, H2, [''not a valid header''])]
     defaultOptions = Inl (ReleaseTitleSyntaxError, [])"
  by code_simp

theorem parser_error_line_witness:
  "parser ''# Title\<newline>\<newline>## not a valid header\<newline>foo'' defaultOptions =
     Some (Inl (ParseErrorInLine 4 ReleaseTitleSyntaxError))
   \<and> parser ''# Title\<newline>\<newline>## not a valid header\<newline>'' defaultOptions =
     Some (Inl HandlerTypeError)
   \<and> parser [] defaultOptions = Some (Inl HandlerTypeError)"
  using parser_error_line [of "''# Title\<newline>\<newline>## not a valid header\<newline>foo''"
      "[(1, H1, [''Title'']), (3, H2, [''not a valid header'']), (4, P, [''foo''])]"
      defaultOptions ReleaseTitleSyntaxError 4 P "[''foo'']" "[]"]
    parser_error_line [of "''# Title\<newline>\<newline>## not a valid header\<newline>''"
      "[(1, H1, [''Title'']), (3, H2, [''not a valid header''])]"
      defaultOptions ReleaseTitleSyntaxError]
    tokenize_bad_header_example processTokens_bad_header_example
    tokenize_bad_header_last_example processTokens_bad_header_last_example
  by simp

section \<open>Continuation lines of a list item\<close>

lemma repCands_Some_0: "repCands p lo (Some 0) s = (if lo = 0 then [s] else [])"
  by (cases s) simp_all

lemma stripTwoSpaces_eq:
  "stripTwoSpaces content =
     (if 2 \<le> length content \<and> isSpace (content ! 0) \<and> isSpace (content ! 1)
      then drop 2 content else content)"
proof (cases content)
  case Nil
  then show ?thesis by (simp add: stripTwoSpaces_def)
next
  case (Cons a as)
  then show ?thesis
    by (cases as) (simp_all add: stripTwoSpaces_def repCands_Some_0)
qed

text \<open>
  C7 as the spec states it fails: a continuation line with one leading space keeps that
  space.
\<close>

theorem mergeLine_one_space_counterexample:
  "mergeLine [(1, LI, [''a''])] ((2, P, '' x''), 1) = Some [(1, LI, [''a'', '' x''])]
   \<and> tokenize ''- a\<newline> x'' = Some [(1, LI, [''a'', '' x''])]"
  by code_simp

text \<open>
  C7, as the code has it. A line classified as a paragraph that comes right after a list
  item token is appended to the content of that token; the line loses its first two
  characters when both are white space, and is appended unchanged otherwise.
\<close>

theorem mergeLine_paragraph_after_item:
  "0 < index \<Longrightarrow>
     mergeLine ((n, LI, item) # tokens) ((m, P, content), index) =
       Some ((n, LI, item @ [if 2 \<le> length content \<and> isSpace (content ! 0) \<and> isSpace (content ! 1)
                             then drop 2 content else content]) # tokens)"
  by (simp add: stripTwoSpaces_eq)

theorem mergeLine_paragraph_after_item_witness:
  "mergeLine [(1, LI, [''item''])] ((2, P, ''   more''), 1) = Some [(1, LI, [''item'', '' more''])]
   \<and> mergeLine [(1, LI, [''item''])] ((2, P, ''  more''), 1) = Some [(1, LI, [''item'', ''more''])]
   \<and> mergeLine [(1, LI, [''item''])] ((2, P, '' more''), 1) = Some [(1, LI, [''item'', '' more''])]
   \<and> mergeLine [(1, LI, [''item''])] ((2, P, ''more''), 1) = Some [(1, LI, [''item'', ''more''])]"
  using mergeLine_paragraph_after_item [of 1 1 "[''item'']" "[]" 2 "''   more''"]
    mergeLine_paragraph_after_item [of 1 1 "[''item'']" "[]" 2 "''  more''"]
    mergeLine_paragraph_after_item [of 1 1 "[''item'']" "[]" 2 "'' more''"]
    mergeLine_paragraph_after_item [of 1 1 "[''item'']" "[]" 2 "''more''"]
  by (simp add: isSpace_def)

section \<open>The tokenizer returns\<close>

lemma isEmptyStr_iff: "isEmptyStr s \<longleftrightarrow> (\<forall>c\<in>set s. isSpace c)"
  by (auto simp: isEmptyStr_def trim_Nil_iff)

lemma join_empty_sep: "join xs [] = concat xs"
  by (induction xs "[] :: string" rule: join.induct) simp_all

lemma isEmptyArr_iff: "isEmptyArr xs \<longleftrightarrow> (\<forall>x\<in>set xs. isEmptyStr x)"
  by (auto simp: isEmptyArr_def isEmptyStr_iff join_empty_sep)

lemma popLoop_snoc:
  "popLoop (xs @ [x]) = (if isEmptyStr x then popLoop xs else Some (xs @ [x]))"
  by (subst popLoop.simps) (simp add: lastElem_def isEmptyOpt_def)

lemma popLoop_terminates:
  "\<exists>x\<in>set content. \<not> isEmptyStr x \<Longrightarrow>
     popLoop content = Some (rev (dropWhile isEmptyStr (rev content)))"
proof (induction content rule: rev_induct)
  case Nil
  then show ?case by simp
next
  case (snoc x xs)
  then show ?case by (auto simp: popLoop_snoc)
qed

lemma shiftLoop_Cons:
  "shiftLoop (x # xs) = (if isEmptyStr x then shiftLoop xs else Some (x # xs))"
  by (subst shiftLoop.simps) (simp add: firstElem_def isEmptyOpt_def)

lemma shiftLoop_terminates:
  "\<exists>x\<in>set content. \<not> isEmptyStr x \<Longrightarrow> shiftLoop content = Some (dropWhile isEmptyStr content)"
  by (induction content) (auto simp: shiftLoop_Cons)

lemma trimToken_terminates:
  assumes "\<not> isEmptyArr content"
  shows "trimToken (n, t, content) =
           Some (n, t, dropWhile isEmptyStr (rev (dropWhile isEmptyStr (rev content))))"
proof -
  from assms have ex: "\<exists>x\<in>set content. \<not> isEmptyStr x"
    by (simp add: isEmptyArr_iff)
  then have "\<exists>x\<in>set (rev (dropWhile isEmptyStr (rev content))). \<not> isEmptyStr x"
    by (metis dropWhile_eq_Nil_conv hd_dropWhile hd_in_set set_rev)
  with ex show ?thesis
    by (simp add: trimToken_def popLoop_terminates shiftLoop_terminates)
qed

lemma those_map_total:
  "\<forall>x\<in>set xs. f x \<noteq> None \<Longrightarrow> \<exists>ys. those (map f xs) = Some ys"
  by (induction xs) auto

lemma mergeLine_total:
  "index > 0 \<longrightarrow> tokens \<noteq> [] \<Longrightarrow>
     \<exists>tokens'. mergeLine tokens (l, index) = Some tokens' \<and> tokens' \<noteq> []"
  by (cases l; cases tokens) (auto split: if_splits)

lemma forEachLine_total:
  "k > 0 \<longrightarrow> tokens \<noteq> [] \<Longrightarrow>
     \<exists>tokens'. forEachLine tokens (zip ms [k ..< k + length ms]) = Some tokens'"
proof (induction ms arbitrary: tokens k)
  case Nil
  then show ?case by simp
next
  case (Cons m ms)
  from mergeLine_total [OF Cons.prems, of m] obtain tokens1 where
    m: "mergeLine tokens (m, k) = Some tokens1" and ne: "tokens1 \<noteq> []" by blast
  have "[k ..< k + length (m # ms)] = k # [Suc k ..< Suc k + length ms]"
    using upt_conv_Cons [of k "k + length (m # ms)"] by (simp del: upt_Suc)
  then have z: "zip (m # ms) [k ..< k + length (m # ms)] = (m, k) # zip ms [Suc k ..< Suc k + length ms]"
    by (simp del: upt_Suc)
  from Cons.IH [of "Suc k" tokens1] ne obtain tokens' where
    "forEachLine tokens1 (zip ms [Suc k ..< Suc k + length ms]) = Some tokens'" by blast
  with m z show ?case by simp
qed

lemma tokenize_blank: "trim markdown = [] \<Longrightarrow> tokenize markdown = Some []"
  by (simp add: tokenize_def classify_def startsWith_def execAt_def linkRx_def flagRx_def
      trimEnd_def isEmptyArr_def isEmptyStr_def)

text \<open>
  C8. \<^verbatim>\<open>tokenize\<close> returns a token sequence for every input: the callback of
  \<^verbatim>\<open>forEach\<close> never reads an empty array, and the trimming loops stop on every token
  that passes the filter, since a content that is not all blank has a line on which each
  loop stops. For an input that is empty or only white space the result is the empty
  sequence.
\<close>

theorem tokenize_total:
  "(\<exists>tokens. tokenize markdown = Some tokens)
   \<and> ((\<forall>c\<in>set markdown. isSpace c) \<longrightarrow> tokenize markdown = Some [])"
proof
  define lines where "lines = split (trim markdown)"
  define mapped where "mapped = map (\<lambda>(line, index). classify line index) (zip lines [0 ..< length lines])"
  from forEachLine_total [of 0 "[]" mapped] obtain tokens where
    f: "forEachLine [] (zip mapped [0 ..< length mapped]) = Some tokens" by auto
  have "\<forall>token\<in>set (filter (\<lambda>token. \<not> isEmptyArr (snd (snd token))) tokens). trimToken token \<noteq> None"
    by (auto simp: trimToken_terminates)
  from those_map_total [OF this] obtain ys where
    "those (map trimToken (filter (\<lambda>token. \<not> isEmptyArr (snd (snd token))) tokens)) = Some ys" ..
  with f show "\<exists>tokens. tokenize markdown = Some tokens"
    by (simp add: tokenize_def lines_def mapped_def Let_def)
next
  show "(\<forall>c\<in>set markdown. isSpace c) \<longrightarrow> tokenize markdown = Some []"
    by (simp add: tokenize_blank trim_Nil_iff)
qed

theorem tokenize_total_witness:
  "tokenize '' \<newline>  '' = Some []"
  using tokenize_total [of "'' \<newline>  ''"] by (simp add: isSpace_def)

text \<open>
  The filter is needed: on a content whose lines are all blank the first trimming loop
  does not return.
\<close>

lemma popLoop_returns:
  assumes "popLoop content = Some content'"
  shows "\<exists>x\<in>set content. \<not> isEmptyStr x"
proof (rule popLoop.raw_induct [OF _ assms])
  fix f c c'
  assume IH: "\<And>x y. f x = Some y \<Longrightarrow> \<exists>z\<in>set x. \<not> isEmptyStr z"
    and eq: "(if isEmptyOpt (lastElem c) then f (butlast c) else Some c) = Some c'"
  show "\<exists>x\<in>set c. \<not> isEmptyStr x"
  proof (cases "isEmptyOpt (lastElem c)")
    case True
    with eq have "f (butlast c) = Some c'" by simp
    from IH [OF this] show ?thesis by (auto dest: in_set_butlastD)
  next
    case False
    then have "c \<noteq> []" "\<not> isEmptyStr (last c)"
      by (auto simp: isEmptyOpt_def lastElem_def split: if_splits)
    then show ?thesis by (auto intro: bexI [of _ "last c"])
  qed
qed

lemma popLoop_blank_diverges: "\<forall>x\<in>set content. isEmptyStr x \<Longrightarrow> popLoop content = None"
  using popLoop_returns [of content] by (cases "popLoop content") auto

text \<open>Every token that the tokenizer returns has a content that joins to a non-empty string.\<close>

lemma those_map_Some:
  "those (map f xs) = Some ys \<Longrightarrow> \<forall>y\<in>set ys. \<exists>x\<in>set xs. f x = Some y"
proof (induction xs arbitrary: ys)
  case Nil
  then show ?case by simp
next
  case (Cons x xs)
  then show ?case
    by (fastforce split: option.splits)
qed

lemma join_Nil_iff: "sep \<noteq> [] \<Longrightarrow> join xs sep = [] \<longleftrightarrow> xs = [] \<or> xs = [[]]"
  by (induction xs sep rule: join.induct) auto

lemma tokenize_content_nonempty:
  assumes "tokenize markdown = Some tokens" "(n, t, content) \<in> set tokens"
  shows "join content ''\<newline>'' \<noteq> []"
proof -
  from assms(1) obtain raw ys where
    ys: "those (map trimToken (filter (\<lambda>token. \<not> isEmptyArr (snd (snd token))) raw)) = Some ys"
    and tokens: "tokens = rev ys"
    by (auto simp: tokenize_def Let_def split: option.splits)
  from assms(2) tokens have "(n, t, content) \<in> set ys" by simp
  with those_map_Some [OF ys] obtain token where
    token: "\<not> isEmptyArr (snd (snd token))" and tt: "trimToken token = Some (n, t, content)"
    by auto
  obtain n0 t0 c0 where token_eq: "token = (n0, t0, c0)" by (cases token)
  with token tt have c: "content = dropWhile isEmptyStr (rev (dropWhile isEmptyStr (rev c0)))"
    by (simp add: trimToken_terminates)
  from token token_eq have "\<exists>x\<in>set c0. \<not> isEmptyStr x" by (simp add: isEmptyArr_iff)
  then have "\<exists>x\<in>set (rev (dropWhile isEmptyStr (rev c0))). \<not> isEmptyStr x"
    by (metis dropWhile_eq_Nil_conv hd_dropWhile hd_in_set set_rev)
  then have "\<exists>x\<in>set content. \<not> isEmptyStr x"
    unfolding c by (metis dropWhile_eq_Nil_conv hd_dropWhile hd_in_set)
  then obtain x where "x \<in> set content" "x \<noteq> []" by (auto simp: isEmptyStr_def)
  then have "content \<noteq> [] \<and> content \<noteq> [[]]" by auto
  then show ?thesis by (simp add: join_Nil_iff)
qed

section \<open>Lines of hashes\<close>

text \<open>
  C9 as the spec states it fails: the line "#" is a paragraph whose content is "#", not a
  heading of level 1 with empty content.
\<close>

theorem classify_hash_counterexample:
  "classify ''#'' 0 = (1, P, ''#'') \<and> classify ''#'' 0 \<noteq> (1, H1, [])"
  by (simp add: classify_def startsWith_def execAt_def linkRx_def flagRx_def trimEnd_def
      isSpace_def)

lemma startsWith_split: "startsWith line p \<Longrightarrow> line = p @ drop (length p) line"
  by (metis append_take_drop_id startsWith_def)

lemma isSpace_space: "isSpace CHR '' ''"
  by (simp add: isSpace_def)

lemma classify_heading_empty:
  "snd (classify line index) = (H1, []) \<longleftrightarrow> (\<exists>rest. line = ''# '' @ rest \<and> (\<forall>c\<in>set rest. isSpace c))"
  "snd (classify line index) = (H2, []) \<longleftrightarrow> (\<exists>rest. line = ''## '' @ rest \<and> (\<forall>c\<in>set rest. isSpace c))"
  "snd (classify line index) = (H3, []) \<longleftrightarrow> (\<exists>rest. line = ''### '' @ rest \<and> (\<forall>c\<in>set rest. isSpace c))"
proof -
  show "snd (classify line index) = (H1, []) \<longleftrightarrow> (\<exists>rest. line = ''# '' @ rest \<and> (\<forall>c\<in>set rest. isSpace c))"
  proof
    assume a: "snd (classify line index) = (H1, [])"
    then have s: "startsWith line ''# ''" and t: "trim (substr line 1) = []"
      by (auto simp: classify_def Let_def split: if_splits option.splits)
    define rest where "rest = drop (length ''# '') line"
    from startsWith_split [OF s] have l: "line = ''# '' @ rest" unfolding rest_def .
    from t have "\<forall>c\<in>set rest. isSpace c"
      unfolding l by (simp add: trim_Nil_iff substr_def)
    with l show "\<exists>rest. line = ''# '' @ rest \<and> (\<forall>c\<in>set rest. isSpace c)" by blast
  next
    assume "\<exists>rest. line = ''# '' @ rest \<and> (\<forall>c\<in>set rest. isSpace c)"
    then show "snd (classify line index) = (H1, [])"
      by (auto simp: classify_def startsWith_def substr_def trim_Nil_iff isSpace_space)
  qed
  show "snd (classify line index) = (H2, []) \<longleftrightarrow> (\<exists>rest. line = ''## '' @ rest \<and> (\<forall>c\<in>set rest. isSpace c))"
  proof
    assume a: "snd (classify line index) = (H2, [])"
    then have s: "startsWith line ''## ''" and t: "trim (substr line 2) = []"
      by (auto simp: classify_def Let_def split: if_splits option.splits)
    define rest where "rest = drop (length ''## '') line"
    from startsWith_split [OF s] have l: "line = ''## '' @ rest" unfolding rest_def .
    from t have "\<forall>c\<in>set rest. isSpace c"
      unfolding l by (simp add: trim_Nil_iff substr_def)
    with l show "\<exists>rest. line = ''## '' @ rest \<and> (\<forall>c\<in>set rest. isSpace c)" by blast
  next
    assume "\<exists>rest. line = ''## '' @ rest \<and> (\<forall>c\<in>set rest. isSpace c)"
    then show "snd (classify line index) = (H2, [])"
      by (auto simp: classify_def startsWith_def substr_def trim_Nil_iff isSpace_space)
  qed
  show "snd (classify line index) = (H3, []) \<longleftrightarrow> (\<exists>rest. line = ''### '' @ rest \<and> (\<forall>c\<in>set rest. isSpace c))"
  proof
    assume a: "snd (classify line index) = (H3, [])"
    then have s: "startsWith line ''### ''" and t: "trim (substr line 3) = []"
      by (auto simp: classify_def Let_def split: if_splits option.splits)
    define rest where "rest = drop (length ''### '') line"
    from startsWith_split [OF s] have l: "line = ''### '' @ rest" unfolding rest_def .
    from t have "\<forall>c\<in>set rest. isSpace c"
      unfolding l by (simp add: trim_Nil_iff substr_def)
    with l show "\<exists>rest. line = ''### '' @ rest \<and> (\<forall>c\<in>set rest. isSpace c)" by blast
  next
    assume "\<exists>rest. line = ''### '' @ rest \<and> (\<forall>c\<in>set rest. isSpace c)"
    then show "snd (classify line index) = (H3, [])"
      by (auto simp: classify_def startsWith_def substr_def trim_Nil_iff isSpace_space)
  qed
qed

lemma tokenize_empty_heading_example:
  "tokenize ''#  \<newline>##\<newline>x'' = Some [(2, P, [''##'', ''x''])]"
  by code_simp

text \<open>
  C9, as the code has it. A line that is only "#", "##" or "###" is classified as a
  paragraph whose content is the line itself. A line is classified as a heading of level
  1, 2 or 3 with empty content exactly when it is "#", "##" or "###" followed by a space
  and then by white space only. Such a token is then dropped: every token that the
  tokenizer returns has a content that joins to a non-empty string.
\<close>

theorem classify_hashes:
  "classify ''#'' index = (index + 1, P, ''#'')
   \<and> classify ''##'' index = (index + 1, P, ''##'')
   \<and> classify ''###'' index = (index + 1, P, ''###'')
   \<and> (snd (classify line index) = (H1, []) \<longleftrightarrow>
        (\<exists>rest. line = ''# '' @ rest \<and> (\<forall>c\<in>set rest. isSpace c)))
   \<and> (snd (classify line index) = (H2, []) \<longleftrightarrow>
        (\<exists>rest. line = ''## '' @ rest \<and> (\<forall>c\<in>set rest. isSpace c)))
   \<and> (snd (classify line index) = (H3, []) \<longleftrightarrow>
        (\<exists>rest. line = ''### '' @ rest \<and> (\<forall>c\<in>set rest. isSpace c)))
   \<and> (tokenize markdown = Some tokens \<and> (n, t, content) \<in> set tokens \<longrightarrow>
        join content ''\<newline>'' \<noteq> [])"
proof -
  have "classify ''#'' index = (index + 1, P, ''#'')
   \<and> classify ''##'' index = (index + 1, P, ''##'')
   \<and> classify ''###'' index = (index + 1, P, ''###'')"
    by (simp add: classify_def startsWith_def execAt_def linkRx_def flagRx_def trimEnd_def
      isSpace_def)
  moreover have "tokenize markdown = Some tokens \<and> (n, t, content) \<in> set tokens \<longrightarrow>
        join content ''\<newline>'' \<noteq> []"
    using tokenize_content_nonempty [of markdown tokens n t content] by blast
  ultimately show ?thesis
    using classify_heading_empty [of line index] by blast
qed

theorem classify_hashes_witness:
  "classify ''#'' 4 = (5, P, ''#'')
   \<and> snd (classify ''#   '' 4) = (H1, [])
   \<and> snd (classify ''##   '' 4) = (H2, [])
   \<and> snd (classify ''###   '' 4) = (H3, [])
   \<and> snd (classify ''#'' 4) \<noteq> (H1, [])
   \<and> tokenize ''#  \<newline>##\<newline>x'' = Some [(2, P, [''##'', ''x''])]
   \<and> join [''##'', ''x''] ''\<newline>'' \<noteq> []"
  using classify_hashes [of 4 "''#   ''" "''#  \<newline>##\<newline>x''" "[(2, P, [''##'', ''x''])]" 2 P "[''##'', ''x'']"]
    classify_hashes [of 4 "''##   ''"] classify_hashes [of 4 "''###   ''"]
    classify_hashes [of 4 "''#''"]
    tokenize_empty_heading_example
  by (simp add: isSpace_space)

section \<open>Facts about the matcher\<close>

lemma lowerChar_idem: "lowerChar (lowerChar c) = lowerChar c"
proof -
  have lt: "(of_char c :: nat) < 256" by simp
  show ?thesis
    using lt by (auto simp: lowerChar_def Let_def)
qed

lemma toLowerCase_idem: "toLowerCase (toLowerCase s) = toLowerCase s"
  by (simp add: toLowerCase_def lowerChar_idem)







lemma execAt_mem: "execAt rs s = Some m \<Longrightarrow> m \<in> set (runSeq rs (s, []))"
  by (auto simp: execAt_def split: list.splits)

lemma search_Some:
  "search rs s = Some m \<Longrightarrow>
     \<exists>k\<le>length s. execAt rs (drop k s) = Some m \<and> (\<forall>j<k. execAt rs (drop j s) = None)"
proof (induction s)
  case Nil
  then show ?case by simp
next
  case (Cons c cs)
  show ?case
  proof (cases "execAt rs (c # cs)")
    case (Some st)
    with Cons.prems have "execAt rs (drop 0 (c # cs)) = Some m" by simp
    then show ?thesis by blast
  next
    case None
    with Cons.prems have "search rs cs = Some m" by simp
    from Cons.IH [OF this] obtain k where k: "k \<le> length cs" "execAt rs (drop k cs) = Some m"
      "\<forall>j<k. execAt rs (drop j cs) = None" by blast
    have "\<forall>j<Suc k. execAt rs (drop j (c # cs)) = None"
    proof (intro allI impI)
      fix j assume "j < Suc k"
      then show "execAt rs (drop j (c # cs)) = None"
        using None k(3) by (cases j) auto
    qed
    with k(1,2) show ?thesis
      by (intro exI [of _ "Suc k"]) simp
  qed
qed

lemma search_None:
  "search rs s = None \<longleftrightarrow> (\<forall>k\<le>length s. execAt rs (drop k s) = None)"
proof (induction s)
  case Nil
  then show ?case by simp
next
  case (Cons c cs)
  show ?case
  proof (cases "execAt rs (c # cs)")
    case (Some st)
    then have "search rs (c # cs) \<noteq> None" by simp
    moreover from Some have "\<not> (\<forall>k\<le>length (c # cs). execAt rs (drop k (c # cs)) = None)"
      by (auto intro: exI [of _ 0])
    ultimately show ?thesis by blast
  next
    case None
    have "(\<forall>k\<le>length (c # cs). execAt rs (drop k (c # cs)) = None) \<longleftrightarrow>
          (\<forall>k\<le>length cs. execAt rs (drop k cs) = None)"
    proof
      assume a: "\<forall>k\<le>length (c # cs). execAt rs (drop k (c # cs)) = None"
      show "\<forall>k\<le>length cs. execAt rs (drop k cs) = None"
      proof (intro allI impI)
        fix k assume "k \<le> length cs"
        with a [rule_format, of "Suc k"] show "execAt rs (drop k cs) = None" by simp
      qed
    next
      assume a: "\<forall>k\<le>length cs. execAt rs (drop k cs) = None"
      show "\<forall>k\<le>length (c # cs). execAt rs (drop k (c # cs)) = None"
      proof (intro allI impI)
        fix k assume "k \<le> length (c # cs)"
        with a None show "execAt rs (drop k (c # cs)) = None" by (cases k) auto
      qed
    qed
    with None Cons.IH show ?thesis by simp
  qed
qed

lemma search_leftmost:
  assumes "k \<le> length s" "execAt rs (drop k s) = Some m" "\<forall>j<k. execAt rs (drop j s) = None"
  shows "search rs s = Some m"
  using assms
proof (induction s arbitrary: k)
  case Nil
  then show ?case by simp
next
  case (Cons c cs)
  show ?case
  proof (cases k)
    case 0
    with Cons.prems show ?thesis by simp
  next
    case (Suc k')
    with Cons.prems(3) [rule_format, of 0] have n: "execAt rs (c # cs) = None"
      by simp
    have "\<forall>j<k'. execAt rs (drop j cs) = None"
    proof (intro allI impI)
      fix j assume "j < k'"
      with Cons.prems(3) [rule_format, of "Suc j"] Suc show "execAt rs (drop j cs) = None" by simp
    qed
    with Cons.IH [of k'] Cons.prems Suc have "search rs cs = Some m" by simp
    with n show ?thesis by simp
  qed
qed


lemma datedRx_groups:
  "m \<in> set (runSeq datedRx (s, [])) \<Longrightarrow> \<exists>label date. snd m = [(2, date), (1, label)]"
  by (auto simp: datedRx_def)

lemma unreleasedRx_groups:
  "m \<in> set (runSeq unreleasedRx (s, [])) \<Longrightarrow> \<exists>label. snd m = [(1, label)]"
  by (auto simp: unreleasedRx_def split: if_splits)

text \<open>
  What a run returns, as a set: the ways to split the input into the part that the
  pattern takes and the part that is left.
\<close>

lemma repCands_Nil_iff:
  "s' \<in> set (repCands p lo hi []) \<longleftrightarrow> s' = [] \<and> lo = 0"
  by simp

lemma repCands_Cons_iff:
  "s' \<in> set (repCands p lo hi (c # cs)) \<longleftrightarrow>
     (p c \<and> hi \<noteq> Some 0 \<and> s' \<in> set (repCands p (lo - 1) (map_option (\<lambda>h. h - 1) hi) cs))
     \<or> (lo = 0 \<and> s' = c # cs)"
  by auto

lemma repCands_iff:
  "s' \<in> set (repCands p lo hi s) \<longleftrightarrow>
     (\<exists>a. s = a @ s' \<and> (\<forall>c\<in>set a. p c) \<and> lo \<le> length a \<and> (\<forall>h. hi = Some h \<longrightarrow> length a \<le> h))"
proof (induction s arbitrary: lo hi)
  case Nil
  show ?case unfolding repCands_Nil_iff by auto
next
  case (Cons c cs)
  show ?case
  proof
    assume "s' \<in> set (repCands p lo hi (c # cs))"
    then consider (more) "p c" "hi \<noteq> Some 0"
        "s' \<in> set (repCands p (lo - 1) (map_option (\<lambda>h. h - 1) hi) cs)"
      | (stop) "lo = 0" "s' = c # cs"
      unfolding repCands_Cons_iff by blast
    then show "\<exists>a. c # cs = a @ s' \<and> (\<forall>c\<in>set a. p c) \<and> lo \<le> length a \<and>
        (\<forall>h. hi = Some h \<longrightarrow> length a \<le> h)"
    proof cases
      case more
      from more(3) obtain a where a: "cs = a @ s'" "\<forall>c\<in>set a. p c" "lo - 1 \<le> length a"
        "\<forall>h. map_option (\<lambda>h. h - 1) hi = Some h \<longrightarrow> length a \<le> h"
        unfolding Cons.IH by blast
      from a(4) more(2) have "\<forall>h. hi = Some h \<longrightarrow> length (c # a) \<le> h"
        by (cases hi) auto
      moreover from a(3) have "lo \<le> length (c # a)" by simp
      moreover from a(2) more(1) have "\<forall>x\<in>set (c # a). p x" by simp
      moreover from a(1) have "c # cs = (c # a) @ s'" by simp
      ultimately show ?thesis by blast
    next
      case stop
      then have "c # cs = [] @ s' \<and> (\<forall>c\<in>set []. p c) \<and> lo \<le> length ([] :: string) \<and>
        (\<forall>h. hi = Some h \<longrightarrow> length ([] :: string) \<le> h)" by simp
      then show ?thesis by blast
    qed
  next
    assume "\<exists>a. c # cs = a @ s' \<and> (\<forall>c\<in>set a. p c) \<and> lo \<le> length a \<and>
        (\<forall>h. hi = Some h \<longrightarrow> length a \<le> h)"
    then obtain a where a: "c # cs = a @ s'" "\<forall>c\<in>set a. p c" "lo \<le> length a"
      "\<forall>h. hi = Some h \<longrightarrow> length a \<le> h" by blast
    show "s' \<in> set (repCands p lo hi (c # cs))"
    proof (cases a)
      case Nil
      with a(1,3) have "lo = 0 \<and> s' = c # cs" by simp
      then show ?thesis unfolding repCands_Cons_iff by blast
    next
      case (Cons x a')
      with a(1,2,3) have x: "cs = a' @ s'" "p c" "\<forall>c\<in>set a'. p c" "lo - 1 \<le> length a'" by auto
      from a(4) Cons have h0: "hi \<noteq> Some 0" by auto
      from a(4) Cons have "\<forall>h. map_option (\<lambda>h. h - 1) hi = Some h \<longrightarrow> length a' \<le> h"
        by (cases hi) auto
      with x have "s' \<in> set (repCands p (lo - 1) (map_option (\<lambda>h. h - 1) hi) cs)"
        unfolding Cons.IH by blast
      with x(2) h0 show ?thesis unfolding repCands_Cons_iff by blast
    qed
  qed
qed

lemma run_Lit_iff:
  "(s', caps') \<in> set (run (Lit l) (s, caps)) \<longleftrightarrow> s = l @ s' \<and> caps' = caps"
  by (auto simp: startsWith_def) (metis append_take_drop_id)

lemma run_Rep_iff:
  "(s', caps') \<in> set (run (Rep p lo hi) (s, caps)) \<longleftrightarrow>
     caps' = caps \<and>
     (\<exists>a. s = a @ s' \<and> (\<forall>c\<in>set a. p c) \<and> lo \<le> length a \<and> (\<forall>h. hi = Some h \<longrightarrow> length a \<le> h))"
  by (auto simp: repCands_iff)

lemma run_Eoi_iff:
  "(s', caps') \<in> set (run Eoi (s, caps)) \<longleftrightarrow> s = [] \<and> s' = [] \<and> caps' = caps"
  by auto

lemma run_Cap_iff:
  "(s', caps') \<in> set (run (Cap n rs) (s, caps)) \<longleftrightarrow>
     (\<exists>caps1. (s', caps1) \<in> set (runSeq rs (s, caps)) \<and>
        caps' = (n, take (length s - length s') s) # caps1)"
  by auto

lemma runSeq_Cons_iff:
  "st' \<in> set (runSeq (r # rs) st) \<longleftrightarrow> (\<exists>s1 caps1. (s1, caps1) \<in> set (run r st) \<and> st' \<in> set (runSeq rs (s1, caps1)))"
  by auto

text \<open>A match of the flag pattern has its group, which \<open>classify\<close> reads.\<close>

lemma flagRx_run_groups:
  "m \<in> set (runSeq flagRx (s, [])) \<Longrightarrow> \<exists>inner. snd m = [(1, inner)]"
  by (auto simp: flagRx_def split: if_splits)

lemma flagRx_groups:
  "execAt flagRx line = Some result \<Longrightarrow> \<exists>inner. group result 1 = Some inner"
  by (auto dest!: execAt_mem flagRx_run_groups simp: group_def)

section \<open>The header of a release\<close>

lemma releaseArgs_search_dated:
  "search datedRx release = Some m \<Longrightarrow> releaseArgs release = Inr (group m 1, group m 2, None)"
  by (simp add: releaseArgs_def)

lemma search_datedRx_groups:
  assumes "search datedRx release = Some m"
  shows "\<exists>label date. group m 1 = Some label \<and> group m 2 = Some date"
proof -
  from search_Some [OF assms] obtain k where "execAt datedRx (drop k release) = Some m" by blast
  then have "m \<in> set (runSeq datedRx (drop k release, []))" by (rule execAt_mem)
  from datedRx_groups [OF this] show ?thesis by (auto simp: group_def)
qed

lemma search_unreleasedRx_groups:
  assumes "search unreleasedRx release = Some m"
  shows "\<exists>label. group m 1 = Some label"
proof -
  from search_Some [OF assms] obtain k where "execAt unreleasedRx (drop k release) = Some m" by blast
  then have "m \<in> set (runSeq unreleasedRx (drop k release, []))" by (rule execAt_mem)
  from unreleasedRx_groups [OF this] show ?thesis by (auto simp: group_def)
qed

lemma releaseArgs_dated_iff:
  "(\<exists>label date. releaseArgs release = Inr (Some label, Some date, None)) \<longleftrightarrow>
   (\<exists>k\<le>length release. execAt datedRx (drop k release) \<noteq> None)"
proof (cases "search datedRx release")
  case None
  then have "\<not> (\<exists>k\<le>length release. execAt datedRx (drop k release) \<noteq> None)"
    by (simp add: search_None)
  moreover from None have "\<not> (\<exists>label date. releaseArgs release = Inr (Some label, Some date, None))"
    by (auto simp: releaseArgs_def split: option.splits if_splits)
  ultimately show ?thesis by blast
next
  case (Some m)
  from search_datedRx_groups [OF Some] releaseArgs_search_dated [OF Some]
  have "\<exists>label date. releaseArgs release = Inr (Some label, Some date, None)" by auto
  moreover from Some have "\<exists>k\<le>length release. execAt datedRx (drop k release) \<noteq> None"
    using search_None [of datedRx release] by auto
  ultimately show ?thesis by blast
qed

lemma releasesLoop_bad_header:
  assumes "releaseArgs (toLowerCase text) = Inl e" "text \<noteq> []"
  shows "releasesLoop opts changelog ((n, H2, [text]) # rest) = Inl (e, rest)"
  using assms by (subst releasesLoop.simps) (simp add: createRelease_def Let_def)

text \<open>
  C5, as the code has it. The text matched is the header in lower case, and the pattern
  has no anchor at its start. The dated case is taken exactly when the pattern, tried at
  the start, matches some suffix of the text; groups 1 and 2 of the match of the longest
  such suffix (the leftmost start) are the label and the date. A text of which no suffix
  matches and which does not contain "unreleased" fails with the syntax error of the
  release title.
\<close>

theorem releaseArgs_dated:
  "((\<exists>label date. releaseArgs (toLowerCase text) = Inr (Some label, Some date, None)) \<longleftrightarrow>
      (\<exists>k\<le>length text. execAt datedRx (drop k (toLowerCase text)) \<noteq> None))
   \<and> (k \<le> length text \<and> execAt datedRx (drop k (toLowerCase text)) = Some m
        \<and> (\<forall>j<k. execAt datedRx (drop j (toLowerCase text)) = None) \<longrightarrow>
      releaseArgs (toLowerCase text) = Inr (group m 1, group m 2, None))
   \<and> ((\<forall>k\<le>length text. execAt datedRx (drop k (toLowerCase text)) = None)
        \<and> \<not> includesStr (toLowerCase text) ''unreleased'' \<longrightarrow>
      releaseArgs (toLowerCase text) = Inl ReleaseTitleSyntaxError
      \<and> (text \<noteq> [] \<longrightarrow>
           releasesLoop opts changelog ((n, H2, [text]) # rest) = Inl (ReleaseTitleSyntaxError, rest)))"
proof (intro conjI impI)
  show "(\<exists>label date. releaseArgs (toLowerCase text) = Inr (Some label, Some date, None)) \<longleftrightarrow>
      (\<exists>k\<le>length text. execAt datedRx (drop k (toLowerCase text)) \<noteq> None)"
    using releaseArgs_dated_iff [of "toLowerCase text"] by (simp add: toLowerCase_def)
next
  assume "k \<le> length text \<and> execAt datedRx (drop k (toLowerCase text)) = Some m
        \<and> (\<forall>j<k. execAt datedRx (drop j (toLowerCase text)) = None)"
  then have "search datedRx (toLowerCase text) = Some m"
    by (intro search_leftmost [of k]) (simp_all add: toLowerCase_def)
  then show "releaseArgs (toLowerCase text) = Inr (group m 1, group m 2, None)"
    by (rule releaseArgs_search_dated)
next
  assume a: "(\<forall>k\<le>length text. execAt datedRx (drop k (toLowerCase text)) = None)
        \<and> \<not> includesStr (toLowerCase text) ''unreleased''"
  then have "search datedRx (toLowerCase text) = None"
    by (simp add: search_None toLowerCase_def)
  with a show e: "releaseArgs (toLowerCase text) = Inl ReleaseTitleSyntaxError"
    by (simp add: releaseArgs_def)
  assume "text \<noteq> []"
  with e show "releasesLoop opts changelog ((n, H2, [text]) # rest) = Inl (ReleaseTitleSyntaxError, rest)"
    by (rule releasesLoop_bad_header)
qed

text \<open>
  C5 as the spec states it fails: the header "a]b - 2024-01-15" is rejected by the pattern
  anchored at the start and does not contain "unreleased", yet it is taken as a dated
  release, with the label "b ".
\<close>

theorem releaseArgs_unanchored_counterexample:
  "execAt datedRx (toLowerCase ''a]b - 2024-01-15'') = None
   \<and> \<not> includesStr (toLowerCase ''a]b - 2024-01-15'') ''unreleased''
   \<and> releaseArgs (toLowerCase ''a]b - 2024-01-15'') = Inr (Some ''b '', Some ''2024-01-15'', None)"
  by code_simp

lemma dated_suffix_example:
  "execAt datedRx (drop 0 (toLowerCase ''a]b - 2024-01-15'')) = None
   \<and> execAt datedRx (drop (Suc 0) (toLowerCase ''a]b - 2024-01-15'')) = None
   \<and> execAt datedRx (drop (Suc (Suc 0)) (toLowerCase ''a]b - 2024-01-15'')) =
       Some ([], [(2, ''2024-01-15''), (1, ''b '')])"
  by code_simp

lemma search_not_valid_example:
  "search datedRx (toLowerCase ''Not a valid header'') = None
   \<and> \<not> includesStr (toLowerCase ''Not a valid header'') ''unreleased''"
  by code_simp

theorem releaseArgs_dated_witness:
  "releaseArgs (toLowerCase ''a]b - 2024-01-15'') = Inr (Some ''b '', Some ''2024-01-15'', None)
   \<and> releaseArgs (toLowerCase ''Not a valid header'') = Inl ReleaseTitleSyntaxError
   \<and> releasesLoop defaultOptions (newChangelog ''T'') [(3, H2, [''Not a valid header'']), (4, P, [''x''])] =
       Inl (ReleaseTitleSyntaxError, [(4, P, [''x''])])"
  using releaseArgs_dated [of "''a]b - 2024-01-15''" "Suc (Suc 0)" "([], [(2, ''2024-01-15''), (1, ''b '')])"]
    releaseArgs_dated [of "''Not a valid header''" 0 "([], [])" defaultOptions "newChangelog ''T''" 3 "[(4, P, [''x''])]"]
    dated_suffix_example search_not_valid_example
    search_None [of datedRx "toLowerCase ''Not a valid header''"]
  by (simp add: All_less_Suc group_def toLowerCase_def [of "''Not a valid header''"])

lemma releaseArgs_search_unreleased:
  "search datedRx release = None \<Longrightarrow> includesStr release ''unreleased'' \<Longrightarrow>
     releaseArgs release =
       (case search unreleasedRx release of
          Some m \<Rightarrow> Inr (group m 1, None, None)
        | None \<Rightarrow> Inr (None, None, None))"
  by (simp add: releaseArgs_def)

lemma tokenize_labelled_unreleased_example:
  "tokenize ''# Title\<newline>\<newline>## v2 - unreleased\<newline>'' =
     Some [(1, H1, [''Title'']), (3, H2, [''v2 - unreleased''])]"
  by code_simp

lemma tokenize_unreleased_example:
  "tokenize ''# Title\<newline>\<newline>## Unreleased\<newline>'' =
     Some [(1, H1, [''Title'']), (3, H2, [''Unreleased''])]"
  by code_simp

lemma releaseArgs_labelled_unreleased_example:
  "releaseArgs (toLowerCase ''v2 - unreleased'') = Inr (Some ''v2 '', None, None)"
  by code_simp

lemma releaseArgs_unreleased_example:
  "releaseArgs (toLowerCase ''Unreleased'') = Inr (None, None, None)"
  by code_simp

lemma processTokens_one_release:
  assumes "releaseArgs (toLowerCase text) = Inr (version, date, description)" "text \<noteq> []"
  shows "processTokens [(Suc 0, H1, [''Title'']), (3, H2, [text])] opts =
     Inr \<lparr>c_flag = [], c_title = ''Title'', c_description = [],
          c_releases = [(releaseCreator opts version date description)\<lparr>r_description := Some []\<rparr>],
          c_url = None, c_footer = None\<rparr>"
  using assms
  by (simp add: processTokens_def releasesLoop.simps typesLoop.simps
      linksLoop.simps footer_def createRelease_def newChangelog_def addRelease_def Let_def)

lemma parser_labelled_unreleased_example:
  "parser ''# Title\<newline>\<newline>## v2 - unreleased\<newline>'' opts =
     Some (Inr \<lparr>c_flag = [], c_title = ''Title'', c_description = [],
        c_releases = [(releaseCreator opts (Some ''v2 '') None None)\<lparr>r_description := Some []\<rparr>],
        c_url = None, c_footer = None\<rparr>)"
  by (simp add: parser_def tokenize_labelled_unreleased_example
      processTokens_one_release [OF releaseArgs_labelled_unreleased_example])

lemma parser_unreleased_example:
  "parser ''# Title\<newline>\<newline>## Unreleased\<newline>'' opts =
     Some (Inr \<lparr>c_flag = [], c_title = ''Title'', c_description = [],
        c_releases = [(releaseCreator opts None None None)\<lparr>r_description := Some []\<rparr>],
        c_url = None, c_footer = None\<rparr>)"
  by (simp add: parser_def tokenize_unreleased_example
      processTokens_one_release [OF releaseArgs_unreleased_example])

text \<open>
  C6 as the spec states it fails: for the header "v2 - unreleased" the factory is called
  with the label "v2 ", with the space before the dash, and not "v2".
\<close>

theorem parser_labelled_unreleased_counterexample:
  "parser ''# Title\<newline>\<newline>## v2 - unreleased\<newline>'' defaultOptions =
     Some (Inr \<lparr>c_flag = [], c_title = ''Title'', c_description = [],
        c_releases = [\<lparr>r_version = Some ''v2 '', r_date = None, r_description = Some [],
                       r_changes = []\<rparr>],
        c_url = None, c_footer = None\<rparr>)
   \<and> releaseArgs (toLowerCase ''v2 - unreleased'') = Inr (Some ''v2 '', None, None)
   \<and> Some ''v2 '' \<noteq> Some ''v2''"
  by (simp add: parser_labelled_unreleased_example releaseArgs_labelled_unreleased_example
      defaultOptions_def newRelease_def)

text \<open>
  C6, as the code has it. For a header in lower case of which no suffix matches the dated
  pattern and which contains "unreleased": when the pattern
  \<^verbatim>\<open>\[?([^\]]+)\]?\s*-\s*unreleased$\<close>, tried at the start, matches some suffix, the
  factory is called with group 1 of the match of the longest such suffix as the label and
  no date; when it matches no suffix, the factory is called with no label and no date. So
  "## v2 - unreleased" gives the version "v2 " (group 1 keeps the space before the dash)
  and no date, and "## Unreleased" gives neither version nor date.
\<close>

theorem releaseArgs_unreleased:
  "((\<forall>k\<le>length text. execAt datedRx (drop k (toLowerCase text)) = None)
      \<and> includesStr (toLowerCase text) ''unreleased'' \<longrightarrow>
      (k \<le> length text \<and> execAt unreleasedRx (drop k (toLowerCase text)) = Some m
         \<and> (\<forall>j<k. execAt unreleasedRx (drop j (toLowerCase text)) = None) \<longrightarrow>
       releaseArgs (toLowerCase text) = Inr (group m 1, None, None) \<and> group m 1 \<noteq> None)
      \<and> ((\<forall>k\<le>length text. execAt unreleasedRx (drop k (toLowerCase text)) = None) \<longrightarrow>
       releaseArgs (toLowerCase text) = Inr (None, None, None)))
   \<and> parser ''# Title\<newline>\<newline>## v2 - unreleased\<newline>'' opts =
       Some (Inr \<lparr>c_flag = [], c_title = ''Title'', c_description = [],
          c_releases = [(releaseCreator opts (Some ''v2 '') None None)\<lparr>r_description := Some []\<rparr>],
          c_url = None, c_footer = None\<rparr>)
   \<and> parser ''# Title\<newline>\<newline>## Unreleased\<newline>'' opts =
       Some (Inr \<lparr>c_flag = [], c_title = ''Title'', c_description = [],
          c_releases = [(releaseCreator opts None None None)\<lparr>r_description := Some []\<rparr>],
          c_url = None, c_footer = None\<rparr>)"
proof (intro conjI impI)
  assume a: "(\<forall>k\<le>length text. execAt datedRx (drop k (toLowerCase text)) = None)
      \<and> includesStr (toLowerCase text) ''unreleased''"
  then have d: "search datedRx (toLowerCase text) = None"
    by (simp add: search_None toLowerCase_def)
  {
    assume "k \<le> length text \<and> execAt unreleasedRx (drop k (toLowerCase text)) = Some m
         \<and> (\<forall>j<k. execAt unreleasedRx (drop j (toLowerCase text)) = None)"
    then have s: "search unreleasedRx (toLowerCase text) = Some m"
      by (intro search_leftmost [of k]) (simp_all add: toLowerCase_def)
    with a d show "releaseArgs (toLowerCase text) = Inr (group m 1, None, None)"
      by (simp add: releaseArgs_search_unreleased)
    from search_unreleasedRx_groups [OF s] show "group m 1 \<noteq> None" by auto
  }
  {
    assume "\<forall>k\<le>length text. execAt unreleasedRx (drop k (toLowerCase text)) = None"
    then have "search unreleasedRx (toLowerCase text) = None"
      by (simp add: search_None toLowerCase_def)
    with a d show "releaseArgs (toLowerCase text) = Inr (None, None, None)"
      by (simp add: releaseArgs_search_unreleased)
  }
qed (rule parser_labelled_unreleased_example parser_unreleased_example)+

lemma unreleased_suffix_example:
  "search datedRx (toLowerCase ''[Next] - Unreleased'') = None
   \<and> includesStr (toLowerCase ''[Next] - Unreleased'') ''unreleased''
   \<and> execAt unreleasedRx (drop 0 (toLowerCase ''[Next] - Unreleased'')) = Some ([], [(1, ''next'')])"
  by code_simp

lemma bare_unreleased_example:
  "search datedRx (toLowerCase ''Unreleased'') = None
   \<and> includesStr (toLowerCase ''Unreleased'') ''unreleased''
   \<and> search unreleasedRx (toLowerCase ''Unreleased'') = None"
  by code_simp

theorem releaseArgs_unreleased_witness:
  "releaseArgs (toLowerCase ''[Next] - Unreleased'') = Inr (Some ''next'', None, None)
   \<and> releaseArgs (toLowerCase ''Unreleased'') = Inr (None, None, None)
   \<and> parser ''# Title\<newline>\<newline>## v2 - unreleased\<newline>'' defaultOptions =
       Some (Inr \<lparr>c_flag = [], c_title = ''Title'', c_description = [],
          c_releases = [\<lparr>r_version = Some ''v2 '', r_date = None, r_description = Some [],
                         r_changes = []\<rparr>],
          c_url = None, c_footer = None\<rparr>)"
  using releaseArgs_unreleased [of "''[Next] - Unreleased''" 0 "([], [(1, ''next'')])" defaultOptions]
    releaseArgs_unreleased [of "''Unreleased''" 0 "([], [])" defaultOptions]
    unreleased_suffix_example bare_unreleased_example
    search_None [of datedRx "toLowerCase ''[Next] - Unreleased''"]
    search_None [of datedRx "toLowerCase ''Unreleased''"]
    search_None [of unreleasedRx "toLowerCase ''Unreleased''"]
  by (simp add: group_def defaultOptions_def newRelease_def toLowerCase_def [of "''Unreleased''"]
      toLowerCase_def [of "''[Next] - Unreleased''"])







end
